theory Spec2Isabelle
  imports Main "HOL-Library.AList"
begin

section \<open>JavaScript values and plain objects\<close>

text \<open>
  The values the combobox stores and passes around. Numbers are the integers (indices and
  counts; no NaN and no fractions), \<open>Ref n\<close> is a reference to an opaque object such as a
  list item, compared by identity as \<open>===\<close> does.
\<close>

datatype jsval = Undefined | Null | Bool bool | Num int | Str string | Ref nat

text \<open>
  A plain object is the list of its own properties in insertion order, as
  \<open>Object.keys\<close> enumerates them. Reading a missing property gives \<open>undefined\<close>.
\<close>

type_synonym obj = "(string \<times> jsval) list"

definition obj_get :: "obj \<Rightarrow> string \<Rightarrow> jsval" where
  "obj_get ob k = (case map_of ob k of None \<Rightarrow> Undefined | Some v \<Rightarrow> v)"

definition hasOwnProperty :: "obj \<Rightarrow> string \<Rightarrow> bool" where
  "hasOwnProperty ob k = (k \<in> set (map fst ob))"

definition obj_keys :: "obj \<Rightarrow> string list" where
  "obj_keys ob = map fst ob"

text \<open>\<open>ob[k] = v\<close>: an existing property keeps its place, a new one goes last.\<close>

definition obj_set :: "string \<Rightarrow> jsval \<Rightarrow> obj \<Rightarrow> obj" where
  "obj_set k v ob = AList.update k v ob"

text \<open>\<open>{...a, ...b}\<close>\<close>

definition spread :: "obj \<Rightarrow> obj \<Rightarrow> obj" where
  "spread a b = fold (\<lambda>(k, v). obj_set k v) b a"

fun truthy :: "jsval \<Rightarrow> bool" where
  "truthy Undefined = False"
| "truthy Null = False"
| "truthy (Bool b) = b"
| "truthy (Num n) = (n \<noteq> 0)"
| "truthy (Str s) = (s \<noteq> [])"
| "truthy (Ref _) = True"

subsection \<open>\<open>String(v)\<close>\<close>

text \<open>
  The decimal digits of a natural number, last digit first onto the accumulator, and the
  decimal form of an integer.
\<close>

function decimal_digits :: "nat \<Rightarrow> string \<Rightarrow> string" where
  "decimal_digits n acc =
     (let acc' = (''0123456789'' ! (n mod 10)) # acc
      in if n div 10 = 0 then acc' else decimal_digits (n div 10) acc')"
  by pat_completeness auto
termination
  by (relation "measure fst") auto

declare decimal_digits.simps [simp del]

definition number_toString :: "int \<Rightarrow> string" where
  "number_toString i =
     (if i < 0 then CHR ''-'' # decimal_digits (nat (- i)) [] else decimal_digits (nat i) [])"

text \<open>
  \<open>String(v)\<close>; an object reference prints as a plain object without a \<open>toString\<close> of
  its own does.
\<close>

fun js_String :: "jsval \<Rightarrow> string" where
  "js_String Undefined = ''undefined''"
| "js_String Null = ''null''"
| "js_String (Bool b) = (if b then ''true'' else ''false'')"
| "js_String (Num n) = number_toString n"
| "js_String (Str s) = s"
| "js_String (Ref _) = ''[object Object]''"

section \<open>utils.js\<close>

definition stateKeys :: "string list" where
  "stateKeys = [''highlightedIndex'', ''inputValue'', ''isOpen'', ''selectedItem'', ''type'']"

text \<open>\<open>pickState\<close>: the result holds the known keys the argument owns, in the order of \<open>stateKeys\<close>.\<close>

definition pickState :: "obj \<Rightarrow> obj" where
  "pickState st = map (\<lambda>k. (k, obj_get st k)) (filter (hasOwnProperty st) stateKeys)"

section \<open>The Autocomplete component\<close>

subsection \<open>Props, instance fields, notifications\<close>

text \<open>
  \<open>this.props\<close> after \<open>defaultProps\<close> were merged in. \<open>own\<close> holds the data-valued props by
  name (\<open>selectedItem\<close>, \<open>isOpen\<close>, \<open>inputValue\<close>, \<open>highlightedIndex\<close>, the four defaults,
  \<open>itemCount\<close>); a prop the caller did not supply and that has no default is absent, so it
  reads as \<open>undefined\<close>. \<open>itemToString\<close> is the caller's function.
  \<open>breakingChanges\<close> is \<open>None\<close> when the caller supplies no such prop (it is neither
  declared nor defaulted by the component) and \<open>Some b\<close> when the caller supplies an object
  whose \<open>resetInputOnSelection\<close> is truthy exactly if \<open>b\<close>.
  The callback props are not functions here: each call of one is recorded in the
  instance's \<open>fired\<close> list.
\<close>

record props =
  own :: obj
  itemToString :: "jsval \<Rightarrow> string"
  breakingChanges :: "bool option"

definition default_itemToString :: "jsval \<Rightarrow> string" where
  "default_itemToString i = (if i = Null \<or> i = Undefined then [] else js_String i)"

definition defaultProps :: props where
  "defaultProps =
     \<lparr> own = [(''defaultHighlightedIndex'', Null), (''defaultSelectedItem'', Null),
             (''defaultInputValue'', Str []), (''defaultIsOpen'', Bool False)],
       itemToString = default_itemToString,
       breakingChanges = None \<rparr>"

text \<open>
  A call of one of the callback props: its first argument and, for the second, the state
  part of \<open>getStateAndHelpers()\<close> (for \<open>onInputValueChange\<close> with the update spread over it).
\<close>

datatype notification =
    OnInputValueChange jsval obj
  | OnStateChange obj obj
  | OnSelect jsval obj
  | OnChange jsval obj
  | OnOuterClick obj

text \<open>
  The instance: \<open>this.props\<close>, \<open>this.state\<close>, \<open>this.items\<close> (a hole reads as \<open>undefined\<close>),
  \<open>this.itemCount\<close>, \<open>this.isMouseDown\<close>, and the calls of callback props made so far,
  oldest first.
\<close>

record component =
  props :: props
  state :: obj
  items :: "jsval list"
  itemCount :: jsval
  isMouseDown :: bool
  fired :: "notification list"

text \<open>
  How a call can fail: \<open>TypeError\<close> is the exception the source throws when it reads a
  property of \<open>undefined\<close>, \<open>SyntaxError\<close> the one \<open>new RegExp\<close> throws for a pattern that
  is not a regular expression; \<open>OutsideModel\<close> marks an input of the combobox this model
  does not cover (the source does not throw there).
\<close>

datatype error = TypeError | SyntaxError | OutsideModel

definition this_props :: "component \<Rightarrow> string \<Rightarrow> jsval" where
  "this_props c k = obj_get (own (props c)) k"

definition isControlledProp :: "component \<Rightarrow> string \<Rightarrow> bool" where
  "isControlledProp c key = (this_props c key \<noteq> Undefined)"

definition getState :: "component \<Rightarrow> obj \<Rightarrow> obj" where
  "getState c stateToMerge =
     map (\<lambda>(key, v). (key, if isControlledProp c key then this_props c key else v)) stateToMerge"

definition getStateAndHelpers :: "component \<Rightarrow> obj" where
  "getStateAndHelpers c =
     (let s = getState c (state c)
      in map (\<lambda>k. (k, obj_get s k)) [''highlightedIndex'', ''inputValue'', ''isOpen'', ''selectedItem''])"

text \<open>
  \<open>this.items[i]\<close> for a number, \<open>null\<close>, \<open>undefined\<close>, a boolean or an object: anything
  but the index of a stored item reads as \<open>undefined\<close>. A string would name a property of
  the array (\<open>'0'\<close>, \<open>'length'\<close>, a method), which is outside this model: \<open>None\<close>.
\<close>

definition item_at :: "component \<Rightarrow> jsval \<Rightarrow> jsval option" where
  "item_at c i =
     (case i of
        Num n \<Rightarrow> Some (if 0 \<le> n \<and> n < int (length (items c)) then items c ! nat n else Undefined)
      | Str _ \<Rightarrow> None
      | _ \<Rightarrow> Some Undefined)"

definition getItemCount :: "component \<Rightarrow> jsval" where
  "getItemCount c =
     (if itemCount c \<noteq> Null then itemCount c
      else if this_props c ''itemCount'' \<noteq> Undefined then this_props c ''itemCount''
      else Num (int (length (items c))))"

text \<open>The constructor.\<close>

definition Autocomplete :: "props \<Rightarrow> component" where
  "Autocomplete p =
     (let c0 = \<lparr> props = p, state = [], items = [], itemCount = Null, isMouseDown = False,
                 fired = [] \<rparr>;
          st = getState c0
                 [(''highlightedIndex'', this_props c0 ''defaultHighlightedIndex''),
                  (''isOpen'', this_props c0 ''defaultIsOpen''),
                  (''inputValue'', this_props c0 ''defaultInputValue''),
                  (''selectedItem'', this_props c0 ''defaultSelectedItem'')];
          st' = (if truthy (obj_get st ''selectedItem'')
                 then obj_set ''inputValue'' (Str (itemToString p (obj_get st ''selectedItem''))) st
                 else st)
      in c0\<lparr>state := st'\<rparr>)"

subsection \<open>internalSetState\<close>

definition type_unknown :: string where
  "type_unknown = ''__autocomplete_unknown__''"

text \<open>
  \<open>stateToSet\<close> is a function of the current state (\<open>Inl\<close>) or an object (\<open>Inr\<close>).
  \<open>update_of\<close> is the update object the updater works on: the function applied to the
  merged state, or the object itself. \<open>with_type\<close> is the line
  \<open>stateToSet.type = stateToSet.type || unknown\<close>.
\<close>

definition update_of :: "component \<Rightarrow> (obj \<Rightarrow> obj) + obj \<Rightarrow> obj" where
  "update_of c stateToSet =
     (case stateToSet of Inl f \<Rightarrow> f (getState c (state c)) | Inr ob \<Rightarrow> ob)"

definition with_type :: "obj \<Rightarrow> obj" where
  "with_type s =
     obj_set ''type'' (if truthy (obj_get s ''type'') then obj_get s ''type'' else Str type_unknown) s"

text \<open>
  A guarded call of a callback prop, \<open>if (cond) this.props.onX(arg, this.getStateAndHelpers())\<close>:
  \<open>callback\<close> takes the state part of \<open>getStateAndHelpers()\<close> as the call is made.
\<close>

definition notify :: "bool \<Rightarrow> (obj \<Rightarrow> notification) \<Rightarrow> component \<Rightarrow> component" where
  "notify cond callback c =
     (if cond then c\<lparr>fired := fired c @ [callback (getStateAndHelpers c)]\<rparr> else c)"

text \<open>
  \<open>setState\<close> runs its updater and then its completion callback at once. The steps, in
  the order of the source: the early \<open>onInputValueChange\<close> (object form), the updater
  (which builds \<open>onStateChangeArg\<close> and \<open>nextState\<close>, and calls \<open>onInputValueChange\<close> in
  the function form), the merge of \<open>nextState\<close> into \<open>this.state\<close>, the caller's \<open>cb\<close>,
  then \<open>onStateChange\<close>, \<open>onSelect\<close> and \<open>onChange\<close>.
\<close>

definition internalSetState ::
    "(obj \<Rightarrow> obj) + obj \<Rightarrow> (component \<Rightarrow> component) \<Rightarrow> component \<Rightarrow> component" where
  "internalSetState stateToSet cb c =
     (let c1 = (case stateToSet of
                  Inr ob \<Rightarrow>
                    notify (hasOwnProperty ob ''inputValue'')
                      (\<lambda>h. OnInputValueChange (obj_get ob ''inputValue'') (spread h ob)) c
                | Inl _ \<Rightarrow> c);
          st = getState c1 (state c1);
          raw = update_of c1 stateToSet;
          isItemSelected = hasOwnProperty raw ''selectedItem'';
          onChangeArg = (if isItemSelected \<and> obj_get raw ''selectedItem'' \<noteq> obj_get st ''selectedItem''
                         then obj_get raw ''selectedItem'' else Undefined);
          s = with_type raw;
          onStateChangeArg = filter (\<lambda>(key, v). obj_get st key \<noteq> v) s;
          nextState = filter (\<lambda>(key, v). key \<noteq> ''type'' \<and> \<not> isControlledProp c1 key) s;
          c2 = (case stateToSet of
                  Inl _ \<Rightarrow>
                    notify (hasOwnProperty s ''inputValue'')
                      (\<lambda>h. OnInputValueChange (obj_get s ''inputValue'') (spread h s)) c1
                | Inr _ \<Rightarrow> c1);
          c3 = c2\<lparr>state := spread (state c2) nextState\<rparr>;
          c4 = cb c3;
          c5 = notify (length (obj_keys onStateChangeArg) > 1) (OnStateChange onStateChangeArg) c4;
          c6 = notify isItemSelected (OnSelect (obj_get s ''selectedItem'')) c5
      in notify (onChangeArg \<noteq> Undefined) (OnChange onChangeArg) c6)"

text \<open>\<open>cbToCb(undefined)\<close>\<close>

definition noop :: "component \<Rightarrow> component" where
  "noop c = c"

subsection \<open>Actions\<close>

text \<open>An argument left out (\<open>undefined\<close>) is \<open>Undefined\<close> for a value and \<open>[]\<close> for a partial state.\<close>

definition setHighlightedIndex :: "jsval \<Rightarrow> obj \<Rightarrow> component \<Rightarrow> component" where
  "setHighlightedIndex highlightedIndex otherStateToSet c =
     (let hi = (if highlightedIndex = Undefined then this_props c ''defaultHighlightedIndex''
                else highlightedIndex)
      in internalSetState (Inr (spread [(''highlightedIndex'', hi)] (pickState otherStateToSet))) noop c)"

text \<open>
  \<open>selectItem\<close>. With \<open>selectedItem\<close> controlled the source reads
  \<open>this.props.breakingChanges.resetInputOnSelection\<close>, which throws a TypeError when the
  caller supplied no \<open>breakingChanges\<close> prop.
\<close>

definition selectItem ::
    "jsval \<Rightarrow> obj \<Rightarrow> (component \<Rightarrow> component) \<Rightarrow> component \<Rightarrow> error + component" where
  "selectItem item otherStateToSet cb c =
     (let other = pickState otherStateToSet;
          upd = (\<lambda>inputValue.
                   spread [(''isOpen'', Bool False),
                           (''highlightedIndex'', this_props c ''defaultHighlightedIndex''),
                           (''selectedItem'', item),
                           (''inputValue'', inputValue)] other)
      in if isControlledProp c ''selectedItem''
         then (case breakingChanges (props c) of
                 None \<Rightarrow> Inl TypeError
               | Some resetInputOnSelection \<Rightarrow>
                   Inr (internalSetState
                          (Inr (upd (if resetInputOnSelection then this_props c ''defaultInputValue''
                                     else Str (itemToString (props c) item)))) cb c))
         else Inr (internalSetState (Inr (upd (Str (itemToString (props c) item)))) cb c))"

definition selectItemAtIndex ::
    "jsval \<Rightarrow> obj \<Rightarrow> (component \<Rightarrow> component) \<Rightarrow> component \<Rightarrow> error + component" where
  "selectItemAtIndex itemIndex otherStateToSet cb c =
     (case item_at c itemIndex of
        None \<Rightarrow> Inl OutsideModel
      | Some item \<Rightarrow> if item = Null then Inr c else selectItem item otherStateToSet cb c)"

definition selectHighlightedItem ::
    "obj \<Rightarrow> (component \<Rightarrow> component) \<Rightarrow> component \<Rightarrow> error + component" where
  "selectHighlightedItem otherStateToSet cb c =
     selectItemAtIndex (obj_get (getState c (state c)) ''highlightedIndex'') otherStateToSet cb c"

definition clearSelection :: "(component \<Rightarrow> component) \<Rightarrow> component \<Rightarrow> component" where
  "clearSelection cb c =
     internalSetState
       (Inr [(''selectedItem'', Null), (''inputValue'', Str []), (''isOpen'', Bool False)]) cb c"

definition openAndHighlightDefaultIndex :: "obj \<Rightarrow> component \<Rightarrow> component" where
  "openAndHighlightDefaultIndex otherStateToSet c =
     setHighlightedIndex Undefined (spread [(''isOpen'', Bool True)] otherStateToSet) c"

definition highlightDefaultIndex :: "obj \<Rightarrow> component \<Rightarrow> component" where
  "highlightDefaultIndex otherStateToSet c = setHighlightedIndex Undefined otherStateToSet c"

text \<open>
  \<open>changeHighlightedIndex\<close>. The arithmetic is on integers: an item count that is not a
  number, or a highlighted index that is neither \<open>null\<close> nor a number, is outside this
  model (\<open>Inl OutsideModel\<close>; the source does not throw there).
\<close>

definition changeHighlightedIndex :: "int \<Rightarrow> obj \<Rightarrow> component \<Rightarrow> error + component" where
  "changeHighlightedIndex moveAmount otherStateToSet c =
     (case getItemCount c of
        Num n \<Rightarrow>
          (let itemsLastIndex = n - 1
           in if itemsLastIndex < 0 then Inr c
              else
                (let go = (\<lambda>baseIndex.
                       let newIndex = baseIndex + moveAmount;
                           newIndex' = (if newIndex < 0 then itemsLastIndex
                                        else if newIndex > itemsLastIndex then 0
                                        else newIndex)
                       in Inr (setHighlightedIndex (Num newIndex') otherStateToSet c))
                 in case obj_get (getState c (state c)) ''highlightedIndex'' of
                      Null \<Rightarrow> go (if moveAmount > 0 then - 1 else itemsLastIndex + 1)
                    | Num baseIndex \<Rightarrow> go baseIndex
                    | _ \<Rightarrow> Inl OutsideModel))
      | _ \<Rightarrow> Inl OutsideModel)"

definition moveHighlightedIndex :: "int \<Rightarrow> obj \<Rightarrow> component \<Rightarrow> error + component" where
  "moveHighlightedIndex amount otherStateToSet c =
     (if truthy (obj_get (getState c (state c)) ''isOpen'')
      then changeHighlightedIndex amount otherStateToSet c
      else Inr (openAndHighlightDefaultIndex otherStateToSet c))"

definition reset :: "obj \<Rightarrow> (component \<Rightarrow> component) \<Rightarrow> component \<Rightarrow> component" where
  "reset otherStateToSet cb c =
     (let other = pickState otherStateToSet
      in internalSetState
           (Inl (\<lambda>st. spread [(''isOpen'', Bool False),
                               (''highlightedIndex'', this_props c ''defaultHighlightedIndex''),
                               (''inputValue'', Str (itemToString (props c) (obj_get st ''selectedItem'')))]
                        other))
           cb c)"

definition toggleMenu :: "obj \<Rightarrow> (component \<Rightarrow> component) \<Rightarrow> component \<Rightarrow> component" where
  "toggleMenu otherStateToSet cb c =
     (let other = pickState otherStateToSet
      in internalSetState
           (Inl (\<lambda>st. spread [(''isOpen'', Bool (\<not> truthy (obj_get st ''isOpen'')))] other))
           (\<lambda>c'. cb (if truthy (obj_get (getState c' (state c')) ''isOpen'')
                      then highlightDefaultIndex [] c' else c'))
           c)"

definition openMenu :: "(component \<Rightarrow> component) \<Rightarrow> component \<Rightarrow> component" where
  "openMenu cb c = internalSetState (Inr [(''isOpen'', Bool True)]) cb c"

definition closeMenu :: "(component \<Rightarrow> component) \<Rightarrow> component \<Rightarrow> component" where
  "closeMenu cb c = internalSetState (Inr [(''isOpen'', Bool False)]) cb c"

subsection \<open>Event handlers\<close>

definition keyDownArrowUp :: string where "keyDownArrowUp = ''__autocomplete_keydown_arrow_up__''"

definition keyDownArrowDown :: string where "keyDownArrowDown = ''__autocomplete_keydown_arrow_down__''"

definition keyDownEscape :: string where "keyDownEscape = ''__autocomplete_keydown_escape__''"

definition keyDownEnter :: string where "keyDownEnter = ''__autocomplete_keydown_enter__''"

definition blurInput :: string where "blurInput = ''__autocomplete_blur_input__''"

definition changeInput :: string where "changeInput = ''__autocomplete_change_input__''"

definition itemMouseEnter :: string where "itemMouseEnter = ''__autocomplete_item_mouseenter__''"

definition mouseUp :: string where "mouseUp = ''__autocomplete_mouseup__''"

text \<open>\<open>input_handleKeyDown\<close> with the event's \<open>key\<close> and \<open>shiftKey\<close>; a key without a handler does nothing.\<close>

definition input_handleKeyDown :: "string \<Rightarrow> bool \<Rightarrow> component \<Rightarrow> error + component" where
  "input_handleKeyDown key shiftKey c =
     (if key = ''ArrowDown''
        then moveHighlightedIndex (if shiftKey then 5 else 1) [(''type'', Str keyDownArrowDown)] c
      else if key = ''ArrowUp''
        then moveHighlightedIndex (if shiftKey then - 5 else - 1) [(''type'', Str keyDownArrowUp)] c
      else if key = ''Enter''
        then (if truthy (obj_get (getState c (state c)) ''isOpen'')
              then selectHighlightedItem [(''type'', Str keyDownEnter)] noop c
              else Inr c)
      else if key = ''Escape''
        then Inr (reset [(''type'', Str keyDownEscape)] noop c)
      else Inr c)"

definition input_handleChange :: "string \<Rightarrow> component \<Rightarrow> component" where
  "input_handleChange v c =
     internalSetState
       (Inr [(''type'', Str changeInput), (''isOpen'', Bool True), (''inputValue'', Str v)]) noop c"

definition input_handleBlur :: "component \<Rightarrow> component" where
  "input_handleBlur c =
     (if \<not> isMouseDown c then reset [(''type'', Str blurInput)] noop c else c)"


definition item_onMouseEnter :: "jsval \<Rightarrow> component \<Rightarrow> component" where
  "item_onMouseEnter index c = setHighlightedIndex index [(''type'', Str itemMouseEnter)] c"

text \<open>
  The window listeners of \<open>componentDidMount\<close>; \<open>outside\<close> says that the event's target is
  the root node or lies outside it.
\<close>

definition onMouseDown :: "component \<Rightarrow> component" where
  "onMouseDown c = c\<lparr>isMouseDown := True\<rparr>"

definition onMouseUp :: "bool \<Rightarrow> component \<Rightarrow> component" where
  "onMouseUp outside c =
     (let c' = c\<lparr>isMouseDown := False\<rparr>
      in if outside \<and> truthy (obj_get (getState c' (state c')) ''isOpen'')
         then reset [(''type'', Str mouseUp),
                     (''inputValue'', obj_get (getState c' (state c')) ''inputValue'')]
                (notify True OnOuterClick) c'
         else c')"

text \<open>
  A sequence of key presses on the input, each with its \<open>shiftKey\<close>; the first key whose
  handler fails ends the run. The render between two presses registers the same items.
\<close>

fun press_keys :: "(string \<times> bool) list \<Rightarrow> component \<Rightarrow> error + component" where
  "press_keys [] c = Inr c"
| "press_keys ((key, shiftKey) # ks) c =
     (case input_handleKeyDown key shiftKey c of Inl e \<Rightarrow> Inl e | Inr c' \<Rightarrow> press_keys ks c')"

section \<open>GooglePredictions.formatPredictions\<close>

text \<open>
  A prediction of the places API, as far as \<open>formatPredictions\<close> reads it: the two texts of
  \<open>structured_formatting\<close> and their matched substrings (\<open>None\<close> is \<open>undefined\<close>), and two of
  the fields it copies. The result adds \<open>formatted\<close>.
\<close>

datatype matched_substring = Match (offset: int) (length_of: int)

record structured_text =
  main_text :: "string option"
  main_text_matched_substrings :: "matched_substring list option"
  secondary_text :: "string option"
  secondary_text_matched_substrings :: "matched_substring list option"

record formatted =
  formatted_main_text :: "string option"
  formatted_secondary_text :: "string option"

record prediction =
  description :: string
  place_id :: string
  structured_formatting :: structured_text

record formatted_prediction = prediction +
  formatted :: formatted

text \<open>
  \<open>s.substr(start, len)\<close> for integers: a negative start counts from the end.
\<close>

definition substr :: "string \<Rightarrow> int \<Rightarrow> int \<Rightarrow> string" where
  "substr s start len =
     (let size = int (length s);
          from = (if start < 0 then max (size + start) 0 else min start size);
          n = min (max len 0) (size - from)
      in take (nat n) (drop (nat from) s))"

text \<open>
  \<open>s.includes(sub)\<close>
\<close>

fun js_includes :: "string \<Rightarrow> string \<Rightarrow> bool" where
  "js_includes [] sub = (sub = [])"
| "js_includes (x # xs) sub = (take (length sub) (x # xs) = sub \<or> js_includes xs sub)"

text \<open>
  The characters with a meaning of their own in a regular expression.
\<close>

definition regex_special :: "char \<Rightarrow> bool" where
  "regex_special ch = (ch \<in> set (CHR 0x5C # ''^$.|?*+()[]{}''))"

text \<open>
  \<open>s.replace(new RegExp(alts.join('|'), 'g'), f)\<close> for alternatives free of special
  characters. At each position the first alternative that is a prefix of the rest
  matches; a non-empty match is replaced and the scan goes on behind it; an empty match is
  replaced and the scan steps over one character; without a match the character is kept.
  The end of the string is a position too (only an empty alternative matches there).
\<close>

function replace_all :: "string list \<Rightarrow> (string \<Rightarrow> string) \<Rightarrow> string \<Rightarrow> string" where
  "replace_all alts f s =
     (case find (\<lambda>a. take (length a) s = a) alts of
        Some a \<Rightarrow>
          (if a \<noteq> [] then f a @ replace_all alts f (drop (length a) s)
           else (case s of [] \<Rightarrow> f [] | x # xs \<Rightarrow> f [] @ x # replace_all alts f xs))
      | None \<Rightarrow> (case s of [] \<Rightarrow> [] | x # xs \<Rightarrow> x # replace_all alts f xs))"
  by pat_completeness auto
termination
proof (relation "measure (\<lambda>(alts, f, s). length s)")
  show "wf (measure (\<lambda>(alts, f, s). length s))" by simp
next
  fix alts :: "string list" and f :: "string \<Rightarrow> string" and s a :: string
  assume "find (\<lambda>a. take (length a) s = a) alts = Some a" and "a \<noteq> []"
  then have "take (length a) s = a" by (auto simp: find_Some_iff)
  with \<open>a \<noteq> []\<close> have "s \<noteq> []" by auto
  with \<open>a \<noteq> []\<close> show "((alts, f, drop (length a) s), (alts, f, s)) \<in> measure (\<lambda>(alts, f, s). length s)"
    by simp
qed simp_all

declare replace_all.simps [simp del]

text \<open>
  \<open>matches.join('|')\<close>
\<close>

fun join_bar :: "string list \<Rightarrow> string" where
  "join_bar [] = []"
| "join_bar [m] = m"
| "join_bar (m # n # ms) = m @ CHR ''|'' # join_bar (n # ms)"

text \<open>
  What the regular expressions of the JavaScript runtime do with a pattern that has
  special characters is not code of this repository: it is a parameter. An engine gets
  the pattern, the callback and the text, and answers \<open>text.replace(new RegExp(pattern,
  'g'), callback)\<close>: the new text, or the exception thrown.
\<close>

type_synonym regexp_engine = "string \<Rightarrow> (string \<Rightarrow> string) \<Rightarrow> string \<Rightarrow> error + string"

text \<open>
  The body of the \<open>forEach\<close> for one key: the text is copied; when matched substrings are
  present each is cut out of the text with \<open>substr\<close>, the cuts are joined with \<open>|\<close> into a
  global regular expression (no cuts give the empty pattern, which matches the empty
  string everywhere) and every match is replaced by the callback, which wraps it in
  \<open><b>\<close> unless the text from before the replacement already includes the wrapped form
  (\<open>replace_callback\<close>, an arrow function without a name in the source).
  Reading \<open>substr\<close> or \<open>replace\<close> of an undefined text throws a TypeError. Cuts free of
  special characters give a plain alternative of strings, replaced by \<open>replace_all\<close>; a
  pattern with a special character goes to the engine.
\<close>

definition replace_callback :: "string \<Rightarrow> string \<Rightarrow> string" where
  "replace_callback text match =
     (let formattedText = ''<b>'' @ match @ ''</b>''
      in if \<not> js_includes text formattedText then formattedText else match)"

definition format_text ::
  "regexp_engine \<Rightarrow> string option \<Rightarrow> matched_substring list option \<Rightarrow> error + string option" where
  "format_text engine text substrings =
     (case substrings of
        None \<Rightarrow> Inr text
      | Some ms \<Rightarrow>
          (case text of
             None \<Rightarrow> Inl TypeError
           | Some s \<Rightarrow>
               (let matches = map (\<lambda>m. substr s (offset m) (length_of m)) ms
                in if list_ex (list_ex regex_special) matches
                   then (case engine (join_bar matches) (replace_callback s) s of
                           Inl e \<Rightarrow> Inl e
                         | Inr replaced \<Rightarrow> Inr (Some replaced))
                   else Inr (Some (replace_all (if matches = [] then [[]] else matches)
                                     (replace_callback s) s)))))"

text \<open>
  The callback of \<open>predictions.map\<close>: \<open>main_text\<close>, then \<open>secondary_text\<close>.
\<close>

definition formatPrediction :: "regexp_engine \<Rightarrow> prediction \<Rightarrow> error + formatted_prediction" where
  "formatPrediction engine d =
     (let sf = structured_formatting d
      in case format_text engine (main_text sf) (main_text_matched_substrings sf) of
           Inl e \<Rightarrow> Inl e
         | Inr m \<Rightarrow>
             (case format_text engine (secondary_text sf) (secondary_text_matched_substrings sf) of
                Inl e \<Rightarrow> Inl e
              | Inr s \<Rightarrow>
                  Inr (prediction.extend d
                         \<lparr>formatted = \<lparr>formatted_main_text = m, formatted_secondary_text = s\<rparr>\<rparr>)))"

fun formatPredictions :: "regexp_engine \<Rightarrow> prediction list \<Rightarrow> error + formatted_prediction list" where
  "formatPredictions engine [] = Inr []"
| "formatPredictions engine (d # ds) =
     (case formatPrediction engine d of
        Inl e \<Rightarrow> Inl e
      | Inr r \<Rightarrow> (case formatPredictions engine ds of Inl e \<Rightarrow> Inl e | Inr rs \<Rightarrow> Inr (r # rs)))"

section \<open>GoogleLibraryService\<close>

text \<open>
  The options the constructor checks, and what lives outside one constructor call:
  \<open>singleton\<close> is the module variable \<open>GoogleLibraryServiceInstance\<close> (\<open>None\<close> is \<open>null\<close>; the
  instance is known by its options), \<open>script\<close> says whether that instance has created
  its script element, \<open>window_google\<close> whether \<open>window.google\<close> is there. The constructor
  returns the global object or a promise that is still pending; its errors are the
  messages it throws.
\<close>

record service_options =
  apiKey :: jsval
  client :: jsval

datatype load_result = GoogleObject | PendingLoad

record loader_world =
  singleton :: "service_options option"
  script :: bool
  window_google :: bool

definition loadScript :: "loader_world \<Rightarrow> load_result \<times> loader_world" where
  "loadScript w = (if \<not> script w then (PendingLoad, w\<lparr>script := True\<rparr>) else (PendingLoad, w))"

definition init :: "loader_world \<Rightarrow> load_result \<times> loader_world" where
  "init w = (if window_google w then (GoogleObject, w) else loadScript w)"

text \<open>
  The constructor; \<open>arg\<close> is \<open>None\<close> when it is called without options (\<open>props || {}\<close>).
\<close>

definition GoogleLibraryService ::
    "service_options option \<Rightarrow> loader_world \<Rightarrow> (string + load_result) \<times> loader_world" where
  "GoogleLibraryService arg w =
     (let options = (case arg of None \<Rightarrow> \<lparr>apiKey = Undefined, client = Undefined\<rparr> | Some p \<Rightarrow> p);
          w1 = (if singleton w = None then w\<lparr>singleton := Some options\<rparr> else w)
      in if \<not> truthy (apiKey options) \<and> \<not> truthy (client options)
           then (Inl ''You must provide an API Key OR ClientID!'', w1)
         else if truthy (apiKey options) \<and> truthy (client options)
           then (Inl ''API Key AND ClientID given, please use only one of the two!'', w1)
         else (case init w1 of (r, w2) \<Rightarrow> (Inr r, w2)))"

section \<open>Auxiliary definitions\<close>

subsection \<open>The parts of \<open>internalSetState\<close>\<close>

text \<open>
  Names for what \<open>internalSetState\<close> computes on the way: the object given to \<open>setState\<close>,
  the argument of \<open>onStateChange\<close>, the calls made before and after the caller's callback,
  and the instance as \<open>setState\<close> leaves it before that callback runs.
\<close>

definition nextState_of :: "component \<Rightarrow> (obj \<Rightarrow> obj) + obj \<Rightarrow> obj" where
  "nextState_of c stateToSet =
     filter (\<lambda>(key, v). key \<noteq> ''type'' \<and> \<not> isControlledProp c key) (with_type (update_of c stateToSet))"

definition onStateChangeArg_of :: "component \<Rightarrow> (obj \<Rightarrow> obj) + obj \<Rightarrow> obj" where
  "onStateChangeArg_of c stateToSet =
     filter (\<lambda>(key, v). obj_get (getState c (state c)) key \<noteq> v) (with_type (update_of c stateToSet))"

definition early_calls :: "component \<Rightarrow> (obj \<Rightarrow> obj) + obj \<Rightarrow> notification list" where
  "early_calls c stateToSet =
     (let s = (case stateToSet of Inl _ \<Rightarrow> with_type (update_of c stateToSet) | Inr ob \<Rightarrow> ob)
      in if hasOwnProperty s ''inputValue''
         then [OnInputValueChange (obj_get s ''inputValue'') (spread (getStateAndHelpers c) s)]
         else [])"

definition commit :: "(obj \<Rightarrow> obj) + obj \<Rightarrow> component \<Rightarrow> component" where
  "commit stateToSet c =
     c\<lparr>fired := fired c @ early_calls c stateToSet,
       state := spread (state c) (nextState_of c stateToSet)\<rparr>"

definition late_calls :: "component \<Rightarrow> (obj \<Rightarrow> obj) + obj \<Rightarrow> component \<Rightarrow> notification list" where
  "late_calls c stateToSet d =
     (let raw = update_of c stateToSet;
          prior = obj_get (getState c (state c)) ''selectedItem''
      in (if length (obj_keys (onStateChangeArg_of c stateToSet)) > 1
          then [OnStateChange (onStateChangeArg_of c stateToSet) (getStateAndHelpers d)] else []) @
         (if hasOwnProperty raw ''selectedItem''
          then [OnSelect (obj_get (with_type raw) ''selectedItem'') (getStateAndHelpers d)] else []) @
         (if hasOwnProperty raw ''selectedItem'' \<and> obj_get raw ''selectedItem'' \<noteq> prior
             \<and> obj_get raw ''selectedItem'' \<noteq> Undefined
          then [OnChange (obj_get raw ''selectedItem'') (getStateAndHelpers d)] else []))"

text \<open>
  The update object \<open>selectItem\<close> passes to \<open>internalSetState\<close>, for a given input value.
\<close>

definition select_update :: "component \<Rightarrow> jsval \<Rightarrow> jsval \<Rightarrow> obj \<Rightarrow> obj" where
  "select_update c item inputValue other =
     spread [(''isOpen'', Bool False),
             (''highlightedIndex'', this_props c ''defaultHighlightedIndex''),
             (''selectedItem'', item),
             (''inputValue'', inputValue)] (pickState other)"

text \<open>
  The index \<open>changeHighlightedIndex\<close> passes to \<open>setHighlightedIndex\<close>, from the last
  index, the current highlighted index (\<open>null\<close> when none) and the amount.
\<close>

definition moved_index :: "int \<Rightarrow> jsval \<Rightarrow> int \<Rightarrow> int" where
  "moved_index itemsLastIndex highlightedIndex moveAmount =
     (let baseIndex = (case highlightedIndex of Num b \<Rightarrow> b
                       | _ \<Rightarrow> if moveAmount > 0 then - 1 else itemsLastIndex + 1);
          newIndex = baseIndex + moveAmount
      in if newIndex < 0 then itemsLastIndex
         else if newIndex > itemsLastIndex then 0
         else newIndex)"

text \<open>
  A key press is an arrow key press.
\<close>

definition arrow_key :: "string \<times> bool \<Rightarrow> bool" where
  "arrow_key k = (fst k = ''ArrowDown'' \<or> fst k = ''ArrowUp'')"

subsection \<open>Keys that reach the state and the callbacks\<close>

text \<open>
  The keys of the objects a call of a callback prop passes.
\<close>

fun notification_keys :: "notification \<Rightarrow> string set" where
  "notification_keys (OnInputValueChange v h) = set (obj_keys h)"
| "notification_keys (OnStateChange arg h) = set (obj_keys arg) \<union> set (obj_keys h)"
| "notification_keys (OnSelect v h) = set (obj_keys h)"
| "notification_keys (OnChange v h) = set (obj_keys h)"
| "notification_keys (OnOuterClick h) = set (obj_keys h)"

text \<open>
  From \<open>c\<close> to \<open>c'\<close> the state gained no key outside \<open>stateKeys\<close>, the earlier calls are
  still there, and the calls made since pass objects with keys in \<open>stateKeys\<close> only.
\<close>

definition within_known :: "component \<Rightarrow> component \<Rightarrow> bool" where
  "within_known c c' \<longleftrightarrow>
     set (obj_keys (state c')) \<subseteq> set (obj_keys (state c)) \<union> set stateKeys
     \<and> take (length (fired c)) (fired c') = fired c
     \<and> (\<forall>n \<in> set (drop (length (fired c)) (fired c')). notification_keys n \<subseteq> set stateKeys)"

text \<open>
  The key \<open>k\<close> is not in the state of \<open>c'\<close> and in no object of a call made since \<open>c\<close>.
\<close>

definition key_absent :: "string \<Rightarrow> component \<Rightarrow> component \<Rightarrow> bool" where
  "key_absent k c c' \<longleftrightarrow>
     \<not> hasOwnProperty (state c') k
     \<and> (\<forall>n \<in> set (drop (length (fired c)) (fired c')). k \<notin> notification_keys n)"

subsection \<open>Setting a field\<close>

text \<open>
  A call of \<open>onStateChange\<close> that carries the key with the value.
\<close>

definition reports :: "string \<Rightarrow> jsval \<Rightarrow> notification \<Rightarrow> bool" where
  "reports key v n = (case n of OnStateChange arg h \<Rightarrow> (key, v) \<in> set arg | _ \<Rightarrow> False)"

text \<open>
  From \<open>c\<close> to \<open>c'\<close> the field \<open>key\<close> was set to \<open>v\<close>: a field the component owns holds \<open>v\<close>
  in the state of \<open>c'\<close>; a controlled field had the value \<open>v\<close> already or \<open>v\<close> was reported
  to the owner by a call of \<open>onStateChange\<close> made since \<open>c\<close>.
\<close>

definition sets_field :: "component \<Rightarrow> component \<Rightarrow> string \<Rightarrow> jsval \<Rightarrow> bool" where
  "sets_field c c' key v =
     (if isControlledProp c key
      then obj_get (getState c (state c)) key = v
           \<or> list_ex (reports key v) (drop (length (fired c)) (fired c'))
      else obj_get (state c') key = v)"

subsection \<open>Exceptions of the prediction formatter\<close>

text \<open>
  Formatting one text throws: there are matched substrings and the text is \<open>undefined\<close>,
  or a cut has a special character and the engine throws on the pattern.
\<close>

definition text_throws :: "regexp_engine \<Rightarrow> string option \<Rightarrow> matched_substring list option \<Rightarrow> bool" where
  "text_throws engine text substrings =
     (case substrings of
        None \<Rightarrow> False
      | Some ms \<Rightarrow>
          (case text of
             None \<Rightarrow> True
           | Some s \<Rightarrow>
               (let matches = map (\<lambda>m. substr s (offset m) (length_of m)) ms
                in list_ex (list_ex regex_special) matches
                   \<and> isl (engine (join_bar matches) (replace_callback s) s))))"

text \<open>
  Formatting a prediction throws: one of its two texts does.
\<close>

definition throws :: "regexp_engine \<Rightarrow> prediction \<Rightarrow> bool" where
  "throws engine d =
     (text_throws engine (main_text (structured_formatting d))
        (main_text_matched_substrings (structured_formatting d))
      \<or> text_throws engine (secondary_text (structured_formatting d))
           (secondary_text_matched_substrings (structured_formatting d)))"

section \<open>Sample instances\<close>

text \<open>A component whose \<open>isOpen\<close> the caller controls (and holds at \<open>true\<close>).\<close>

definition ctl_props :: props where
  "ctl_props = defaultProps\<lparr>own := own defaultProps @ [(''isOpen'', Bool True)]\<rparr>"

text \<open>
  The same with three items registered.
\<close>

definition sample_controlled :: component where
  "sample_controlled = (Autocomplete ctl_props)\<lparr>items := [Ref 1, Ref 2, Ref 3]\<rparr>"

text \<open>
  A component with default props after a render that registered three items, the same
  with the list opened, and the same after the first item was selected and the list
  opened again.
\<close>

definition sample_closed :: component where
  "sample_closed = (Autocomplete defaultProps)\<lparr>items := [Ref 1, Ref 2, Ref 3]\<rparr>"

definition sample_open :: component where
  "sample_open = openMenu noop sample_closed"

definition sample_selected :: component where
  "sample_selected =
     (case selectItem (Ref 1) [] noop sample_closed of Inr c \<Rightarrow> openMenu noop c | Inl _ \<Rightarrow> sample_closed)"

text \<open>
  The open list after ArrowDown (index 0 highlighted) and after ArrowUp (the last index
  highlighted); the component after the user typed over a selection; a component with a
  default highlighted index of 7 and three items; an open list without items.
\<close>

definition sample_highlighted :: component where
  "sample_highlighted = projr (input_handleKeyDown ''ArrowDown'' False sample_open)"

definition sample_last :: component where
  "sample_last = projr (input_handleKeyDown ''ArrowUp'' False sample_open)"

definition sample_typed :: component where
  "sample_typed = input_handleChange ''Ber'' sample_selected"

definition sample_default7 :: component where
  "sample_default7 =
     (Autocomplete (defaultProps\<lparr>own := obj_set ''defaultHighlightedIndex'' (Num 7) (own defaultProps)\<rparr>))
       \<lparr>items := [Ref 1, Ref 2, Ref 3]\<rparr>"

definition sample_empty_open :: component where
  "sample_empty_open = openMenu noop (Autocomplete defaultProps)"

text \<open>
  An extra partial state with a key the component does not know.
\<close>

definition sample_extra :: obj where
  "sample_extra = [(''foo'', Num 1), (''isOpen'', Bool True), (''type'', Str ''custom'')]"

text \<open>
  A prediction for Berlin, matched on its first four characters.
\<close>

definition berlin :: prediction where
  "berlin =
     \<lparr>description = ''Berlin, Germany'', place_id = ''ChIJAVkDPzdOqEcRcDteW0YgIQQ'',
       structured_formatting = \<lparr>main_text = Some ''Berlin, Germany'',
                     main_text_matched_substrings = Some [Match 0 4],
                     secondary_text = None,
                     secondary_text_matched_substrings = None\<rparr>\<rparr>"

text \<open>
  A prediction whose matched substring has a special character, the dot, and an engine
  with the one answer needed for it: the pattern \<open>St.\<close> has one match in \<open>St. Louis\<close>, the
  first three characters. For every other pattern this engine throws.
\<close>

definition st_louis :: prediction where
  "st_louis =
     \<lparr>description = ''St. Louis, MO, USA'', place_id = ''ChIJ-Y7t-qm02IcRW-C7IsrqOb4'',
       structured_formatting = \<lparr>main_text = Some ''St. Louis'',
                     main_text_matched_substrings = Some [Match 0 3],
                     secondary_text = Some ''MO, USA'',
                     secondary_text_matched_substrings = None\<rparr>\<rparr>"

definition sample_engine :: regexp_engine where
  "sample_engine pattern callback text =
     (if pattern = ''St.'' \<and> text = ''St. Louis'' then Inr (callback ''St.'' @ '' Louis'')
      else Inl SyntaxError)"

text \<open>
  A component whose \<open>selectedItem\<close> the caller controls (and holds at the first item), with
  three items registered and the list opened. No prop \<open>breakingChanges\<close> is passed.
\<close>

definition sel_props :: props where
  "sel_props = defaultProps\<lparr>own := own defaultProps @ [(''selectedItem'', Ref 1)]\<rparr>"

definition sample_controlled_selection :: component where
  "sample_controlled_selection =
     openMenu noop ((Autocomplete sel_props)\<lparr>items := [Ref 1, Ref 2, Ref 3]\<rparr>)"

section \<open>Properties of objects and of the state update\<close>

lemma this_props_upd [simp]:
  "this_props (c\<lparr>fired := x\<rparr>) k = this_props c k"
  "this_props (c\<lparr>state := y\<rparr>) k = this_props c k"
  by (simp_all add: this_props_def)

lemma isControlledProp_upd [simp]:
  "isControlledProp (c\<lparr>fired := x\<rparr>) k = isControlledProp c k"
  "isControlledProp (c\<lparr>state := y\<rparr>) k = isControlledProp c k"
  by (simp_all add: isControlledProp_def)

lemma getState_upd [simp]:
  "getState (c\<lparr>fired := x\<rparr>) s = getState c s"
  "getState (c\<lparr>state := y\<rparr>) s = getState c s"
  by (simp_all add: getState_def case_prod_beta)

lemma getStateAndHelpers_upd [simp]:
  "getStateAndHelpers (c\<lparr>fired := x\<rparr>) = getStateAndHelpers c"
  by (simp add: getStateAndHelpers_def)

lemma update_of_upd [simp]:
  "update_of (c\<lparr>fired := x\<rparr>) s = update_of c s"
  by (simp add: update_of_def split: sum.splits)

lemma hasOwnProperty_with_type [simp]:
  "hasOwnProperty (with_type s) k = (k = ''type'' \<or> hasOwnProperty s k)"
  by (auto simp: with_type_def hasOwnProperty_def obj_set_def dom_update)

lemma notify_eq:
  "notify cond callback c =
     c\<lparr>fired := fired c @ (if cond then [callback (getStateAndHelpers c)] else [])\<rparr>"
  by (simp add: notify_def)

lemma internalSetState_eq:
  "internalSetState stateToSet cb c =
     (let d = cb (commit stateToSet c) in d\<lparr>fired := fired d @ late_calls c stateToSet d\<rparr>)"
proof (cases stateToSet)
  case (Inl f)
  show ?thesis
    unfolding Inl internalSetState_def
    by (simp add: notify_eq Let_def commit_def late_calls_def early_calls_def
          nextState_of_def onStateChangeArg_of_def update_of_def)
next
  case (Inr ob)
  show ?thesis
    unfolding Inr internalSetState_def
    by (simp add: notify_eq Let_def commit_def late_calls_def early_calls_def
          nextState_of_def onStateChangeArg_of_def update_of_def)
qed

lemma map_of_obj_set: "map_of (obj_set k v ob) = (map_of ob)(k \<mapsto> v)"
  by (simp add: obj_set_def update_conv')

lemma obj_get_obj_set [simp]: "obj_get (obj_set k v ob) k' = (if k' = k then v else obj_get ob k')"
  by (simp add: obj_get_def map_of_obj_set)

lemma hasOwnProperty_obj_set [simp]:
  "hasOwnProperty (obj_set k v ob) k' = (k' = k \<or> hasOwnProperty ob k')"
  by (auto simp: hasOwnProperty_def obj_set_def dom_update)

lemma distinct_obj_set: "distinct (map fst ob) \<Longrightarrow> distinct (map fst (obj_set k v ob))"
  by (simp add: obj_set_def distinct_update)

lemma hasOwnProperty_map_of: "hasOwnProperty ob k = (map_of ob k \<noteq> None)"
  by (simp add: hasOwnProperty_def map_of_eq_None_iff)

lemma map_of_spread_other: "\<not> hasOwnProperty b k \<Longrightarrow> map_of (spread a b) k = map_of a k"
proof (induction b arbitrary: a)
  case Nil
  then show ?case by (simp add: spread_def)
next
  case (Cons p b)
  obtain k' v' where p: "p = (k', v')" by (cases p)
  from Cons.prems p have ne: "k \<noteq> k'" and nb: "\<not> hasOwnProperty b k"
    by (auto simp: hasOwnProperty_def)
  have "spread a (p # b) = spread (obj_set k' v' a) b"
    by (simp add: spread_def p)
  then show ?case using Cons.IH [OF nb, of "obj_set k' v' a"] ne
    by (simp add: map_of_obj_set)
qed

lemma map_of_spread_distinct:
  "distinct (map fst b) \<Longrightarrow> hasOwnProperty b k \<Longrightarrow> map_of (spread a b) k = map_of b k"
proof (induction b arbitrary: a)
  case Nil
  then show ?case by (simp add: hasOwnProperty_def)
next
  case (Cons p b)
  obtain k' v' where p: "p = (k', v')" by (cases p)
  have sp: "spread a (p # b) = spread (obj_set k' v' a) b"
    by (simp add: spread_def p)
  show ?case
  proof (cases "k = k'")
    case True
    with Cons.prems p have "\<not> hasOwnProperty b k"
      by (auto simp: hasOwnProperty_def)
    then have "map_of (spread (obj_set k' v' a) b) k = map_of (obj_set k' v' a) k"
      by (rule map_of_spread_other)
    with True sp p show ?thesis by (simp add: map_of_obj_set)
  next
    case False
    with Cons.prems p have "hasOwnProperty b k" "distinct (map fst b)"
      by (auto simp: hasOwnProperty_def)
    with Cons.IH [of "obj_set k' v' a"] False sp p show ?thesis by simp
  qed
qed

lemma obj_get_spread:
  "distinct (map fst b) \<Longrightarrow>
   obj_get (spread a b) k = (if hasOwnProperty b k then obj_get b k else obj_get a k)"
  by (simp add: obj_get_def map_of_spread_distinct map_of_spread_other)

lemma keys_spread: "set (map fst (spread a b)) = set (map fst a) \<union> set (map fst b)"
proof (induction b arbitrary: a)
  case Nil
  then show ?case by (simp add: spread_def)
next
  case (Cons p b)
  obtain k' v' where p: "p = (k', v')" by (cases p)
  have sp: "spread a (p # b) = spread (obj_set k' v' a) b"
    by (simp add: spread_def p)
  have "set (map fst (obj_set k' v' a)) = insert k' (set (map fst a))"
    using dom_update [of k' v' a] by (simp add: obj_set_def)
  with Cons.IH [of "obj_set k' v' a"] sp p show ?case by auto
qed

lemma hasOwnProperty_spread [simp]:
  "hasOwnProperty (spread a b) k = (hasOwnProperty a k \<or> hasOwnProperty b k)"
  using keys_spread [of a b] by (auto simp: hasOwnProperty_def)

lemma distinct_spread: "distinct (map fst a) \<Longrightarrow> distinct (map fst (spread a b))"
proof (induction b arbitrary: a)
  case Nil
  then show ?case by (simp add: spread_def)
next
  case (Cons p b)
  obtain k' v' where p: "p = (k', v')" by (cases p)
  have sp: "spread a (p # b) = spread (obj_set k' v' a) b"
    by (simp add: spread_def p)
  from Cons.prems have "distinct (map fst (obj_set k' v' a))" by (rule distinct_obj_set)
  with Cons.IH sp show ?case by simp
qed

lemma map_of_filter_keys:
  "map_of (filter (\<lambda>(key, v). Q key) ob) k = (if Q k then map_of ob k else None)"
  by (induction ob) auto

lemma obj_get_filter_keys:
  "obj_get (filter (\<lambda>(key, v). Q key) ob) k = (if Q k then obj_get ob k else Undefined)"
  by (simp add: obj_get_def map_of_filter_keys)

lemma hasOwnProperty_filter_keys:
  "hasOwnProperty (filter (\<lambda>(key, v). Q key) ob) k = (Q k \<and> hasOwnProperty ob k)"
  by (simp add: hasOwnProperty_map_of map_of_filter_keys)

lemma distinct_filter_obj: "distinct (map fst ob) \<Longrightarrow> distinct (map fst (filter P ob))"
  by (simp add: distinct_map_filter)

lemma distinct_with_type: "distinct (map fst s) \<Longrightarrow> distinct (map fst (with_type s))"
  by (simp add: with_type_def distinct_obj_set)

lemma obj_get_with_type: "k \<noteq> ''type'' \<Longrightarrow> obj_get (with_type s) k = obj_get s k"
  by (simp add: with_type_def)

lemma keys_getState [simp]: "map fst (getState c s) = map fst s"
  by (simp add: getState_def case_prod_beta)

lemma hasOwnProperty_getState [simp]: "hasOwnProperty (getState c s) k = hasOwnProperty s k"
  by (simp add: hasOwnProperty_def)

lemma map_of_getState:
  "map_of (getState c s) k =
     (case map_of s k of None \<Rightarrow> None
      | Some v \<Rightarrow> Some (if isControlledProp c k then this_props c k else v))"
  by (induction s) (auto simp: getState_def)

lemma obj_get_getState:
  "obj_get (getState c s) k =
     (if isControlledProp c k \<and> hasOwnProperty s k then this_props c k else obj_get s k)"
  by (auto simp: obj_get_def map_of_getState hasOwnProperty_map_of split: option.splits)

lemma distinct_pickState: "distinct (map fst (pickState st))"
  by (simp add: pickState_def comp_def stateKeys_def)

lemma hasOwnProperty_pickState:
  "hasOwnProperty (pickState st) k = (k \<in> set stateKeys \<and> hasOwnProperty st k)"
  by (auto simp: pickState_def hasOwnProperty_def comp_def)

lemma obj_get_pickState:
  "obj_get (pickState st) k = (if k \<in> set stateKeys then obj_get st k else Undefined)"
proof -
  have "map_of (map (\<lambda>k. (k, obj_get st k)) ks) k =
          (if k \<in> set ks then Some (obj_get st k) else None)" for ks
    by (induction ks) auto
  then have "map_of (pickState st) k =
      (if k \<in> set stateKeys \<and> hasOwnProperty st k then Some (obj_get st k) else None)"
    by (simp add: pickState_def)
  then show ?thesis
    by (auto simp: obj_get_def hasOwnProperty_map_of split: option.splits)
qed

lemma state_internalSetState:
  "state (internalSetState stateToSet cb c) = state (cb (commit stateToSet c))"
  by (simp add: internalSetState_eq Let_def)

lemma fired_internalSetState:
  "fired (internalSetState stateToSet cb c) =
     fired (cb (commit stateToSet c)) @ late_calls c stateToSet (cb (commit stateToSet c))"
  by (simp add: internalSetState_eq Let_def)

lemma state_commit: "state (commit stateToSet c) = spread (state c) (nextState_of c stateToSet)"
  by (simp add: commit_def)

lemma fired_commit: "fired (commit stateToSet c) = fired c @ early_calls c stateToSet"
  by (simp add: commit_def)

lemma not_in_nextState_controlled:
  "isControlledProp c key \<Longrightarrow> \<not> hasOwnProperty (nextState_of c stateToSet) key"
  by (simp add: nextState_of_def hasOwnProperty_filter_keys)

lemma not_in_nextState_type: "\<not> hasOwnProperty (nextState_of c stateToSet) ''type''"
  by (simp add: nextState_of_def hasOwnProperty_filter_keys)

lemma in_filter_first:
  "hasOwnProperty s key \<Longrightarrow> P (key, obj_get s key) \<Longrightarrow> (key, obj_get s key) \<in> set (filter P s)"
proof -
  assume "hasOwnProperty s key" and p: "P (key, obj_get s key)"
  then obtain v where v: "map_of s key = Some v"
    by (auto simp: hasOwnProperty_map_of)
  then have "(key, v) \<in> set s" by (rule map_of_SomeD)
  moreover have "obj_get s key = v" using v by (simp add: obj_get_def)
  ultimately show ?thesis using p by simp
qed

lemma two_entries_length:
  assumes "a \<in> set xs" and "b \<in> set xs" and "a \<noteq> b"
  shows "length xs > 1"
proof -
  have "card {a, b} \<le> card (set xs)"
    using assms by (intro card_mono) auto
  also have "\<dots> \<le> length xs" by (rule card_length)
  finally show ?thesis using assms(3) by simp
qed

lemma truthy_type_with_type: "truthy (obj_get (with_type s) ''type'')"
  by (simp add: with_type_def type_unknown_def)

lemma type_in_onStateChangeArg:
  assumes "\<not> hasOwnProperty (state c) ''type''"
  shows "(''type'', obj_get (with_type (update_of c stateToSet)) ''type'')
           \<in> set (onStateChangeArg_of c stateToSet)"
proof -
  let ?s = "with_type (update_of c stateToSet)"
  have "obj_get (getState c (state c)) ''type'' = Undefined"
    using assms by (auto simp: obj_get_def map_of_getState hasOwnProperty_map_of)
  moreover have "obj_get ?s ''type'' \<noteq> Undefined"
    using truthy_type_with_type [of "update_of c stateToSet"] by auto
  ultimately have "(\<lambda>(key, v). obj_get (getState c (state c)) key \<noteq> v) (''type'', obj_get ?s ''type'')"
    by simp
  moreover have "hasOwnProperty ?s ''type''" by simp
  ultimately show ?thesis
    unfolding onStateChangeArg_of_def by (intro in_filter_first)
qed

lemma changed_key_reported:
  assumes nt: "\<not> hasOwnProperty (state c) ''type''"
    and k: "key \<noteq> ''type''"
    and has: "hasOwnProperty (update_of c stateToSet) key"
    and diff: "obj_get (update_of c stateToSet) key \<noteq> obj_get (getState c (state c)) key"
  shows "OnStateChange (onStateChangeArg_of c stateToSet) (getStateAndHelpers d)
           \<in> set (late_calls c stateToSet d)"
    and "(key, obj_get (update_of c stateToSet) key) \<in> set (onStateChangeArg_of c stateToSet)"
proof -
  let ?s = "with_type (update_of c stateToSet)"
  have v: "obj_get ?s key = obj_get (update_of c stateToSet) key"
    using k by (simp add: obj_get_with_type)
  have "(\<lambda>(key, v). obj_get (getState c (state c)) key \<noteq> v) (key, obj_get ?s key)"
    using diff v by auto
  moreover have "hasOwnProperty ?s key" using has by simp
  ultimately have "(key, obj_get ?s key) \<in> set (onStateChangeArg_of c stateToSet)"
    unfolding onStateChangeArg_of_def by (intro in_filter_first)
  then show e: "(key, obj_get (update_of c stateToSet) key) \<in> set (onStateChangeArg_of c stateToSet)"
    using v by simp
  have "length (onStateChangeArg_of c stateToSet) > 1"
    using e type_in_onStateChangeArg [OF nt, of stateToSet] k
    by (intro two_entries_length [of "(key, obj_get (update_of c stateToSet) key)" _
          "(''type'', obj_get ?s ''type'')"]) auto
  then show "OnStateChange (onStateChangeArg_of c stateToSet) (getStateAndHelpers d)
           \<in> set (late_calls c stateToSet d)"
    by (simp add: late_calls_def Let_def obj_keys_def)
qed

subsection \<open>Controlled fields\<close>

text \<open>
  C2. A state update never writes a controlled field into \<open>this.state\<close>: for every update
  (object or function form) and every key whose prop the caller supplies, the stored
  entry for that key is the same before and after, whatever the update names. The caller
  learns of the new value through \<open>onStateChange\<close>: when the update names the key with a
  value other than the field's current one, \<open>onStateChange\<close> is called with an argument
  that carries the key with the new value. (The completion callback is any that leaves
  \<open>this.state\<close> alone; \<open>this.state\<close> has no property \<open>type\<close>, as in every instance the
  constructor builds.)
\<close>

theorem controlled_field_not_stored:
  assumes ctl: "isControlledProp c key"
    and cb: "\<forall>d. state (cb d) = state d"
  shows "map_of (state (internalSetState stateToSet cb c)) key = map_of (state c) key
       \<and> (\<not> hasOwnProperty (state c) ''type'' \<longrightarrow> key \<noteq> ''type'' \<longrightarrow>
            hasOwnProperty (update_of c stateToSet) key \<longrightarrow>
            obj_get (update_of c stateToSet) key \<noteq> obj_get (getState c (state c)) key \<longrightarrow>
            (\<exists>arg h. OnStateChange arg h \<in> set (fired (internalSetState stateToSet cb c))
                     \<and> (key, obj_get (update_of c stateToSet) key) \<in> set arg))"
proof (intro conjI impI)
  have "state (internalSetState stateToSet cb c) = spread (state c) (nextState_of c stateToSet)"
    using cb by (simp add: state_internalSetState state_commit)
  then show "map_of (state (internalSetState stateToSet cb c)) key = map_of (state c) key"
    using not_in_nextState_controlled [OF ctl, of stateToSet] by (simp add: map_of_spread_other)
next
  assume nt: "\<not> hasOwnProperty (state c) ''type''" and k: "key \<noteq> ''type''"
    and has: "hasOwnProperty (update_of c stateToSet) key"
    and diff: "obj_get (update_of c stateToSet) key \<noteq> obj_get (getState c (state c)) key"
  let ?d = "cb (commit stateToSet c)"
  from changed_key_reported(1) [OF nt k has diff, of ?d] changed_key_reported(2) [OF nt k has diff]
  show "\<exists>arg h. OnStateChange arg h \<in> set (fired (internalSetState stateToSet cb c))
                     \<and> (key, obj_get (update_of c stateToSet) key) \<in> set arg"
    by (auto simp: fired_internalSetState)
qed

theorem controlled_field_not_stored_witness:
  "isControlledProp (Autocomplete ctl_props) ''isOpen''
   \<and> (\<forall>d. state (noop d) = state d)
   \<and> map_of (state (internalSetState (Inr [(''isOpen'', Bool False)]) noop (Autocomplete ctl_props))) ''isOpen''
       = Some (Bool True)
   \<and> (\<exists>arg h. OnStateChange arg h
          \<in> set (fired (internalSetState (Inr [(''isOpen'', Bool False)]) noop (Autocomplete ctl_props)))
        \<and> (''isOpen'', Bool False) \<in> set arg)"
proof -
  let ?c = "Autocomplete ctl_props"
  have h1: "isControlledProp ?c ''isOpen''" by code_simp
  have h2: "\<forall>d. state (noop d) = state d" by (simp add: noop_def)
  have h3: "\<not> hasOwnProperty (state ?c) ''type''" by code_simp
  have h4: "hasOwnProperty (update_of ?c (Inr [(''isOpen'', Bool False)])) ''isOpen''" by code_simp
  have h5: "obj_get (update_of ?c (Inr [(''isOpen'', Bool False)])) ''isOpen''
              \<noteq> obj_get (getState ?c (state ?c)) ''isOpen''" by code_simp
  have h6: "map_of (state ?c) ''isOpen'' = Some (Bool True)" by code_simp
  have h7: "obj_get (update_of ?c (Inr [(''isOpen'', Bool False)])) ''isOpen'' = Bool False" by code_simp
  show ?thesis
    using controlled_field_not_stored [OF h1 h2, of "Inr [(''isOpen'', Bool False)]"] h1 h2 h3 h4 h5 h6 h7
    by simp
qed

lemma fired_internalSetState_quiet:
  assumes "\<forall>d. fired (cb d) = fired d"
  shows "fired (internalSetState stateToSet cb c) =
           fired c @ early_calls c stateToSet @ late_calls c stateToSet (cb (commit stateToSet c))"
  using assms by (simp add: fired_internalSetState fired_commit)

lemma early_calls_kind:
  "OnSelect v h \<notin> set (early_calls c stateToSet)" "OnChange v h \<notin> set (early_calls c stateToSet)"
  by (simp_all add: early_calls_def Let_def)

lemma OnSelect_late_calls:
  "OnSelect v h \<in> set (late_calls c stateToSet d) \<longleftrightarrow>
     hasOwnProperty (update_of c stateToSet) ''selectedItem''
     \<and> v = obj_get (update_of c stateToSet) ''selectedItem'' \<and> h = getStateAndHelpers d"
  by (auto simp: late_calls_def Let_def obj_get_with_type)

lemma OnChange_late_calls:
  "OnChange v h \<in> set (late_calls c stateToSet d) \<longleftrightarrow>
     hasOwnProperty (update_of c stateToSet) ''selectedItem''
     \<and> obj_get (update_of c stateToSet) ''selectedItem'' \<noteq> obj_get (getState c (state c)) ''selectedItem''
     \<and> obj_get (update_of c stateToSet) ''selectedItem'' \<noteq> Undefined
     \<and> v = obj_get (update_of c stateToSet) ''selectedItem'' \<and> h = getStateAndHelpers d"
  by (auto simp: late_calls_def Let_def)

subsection \<open>When \<open>onSelect\<close> and \<open>onChange\<close> are called\<close>

text \<open>
  The calls of one update whose completion callback calls no callback prop itself.
  \<open>onSelect\<close> is called exactly if the update object has a \<open>selectedItem\<close> key, whether or
  not the value equals the prior selected item, and its argument is that value.
  \<open>onChange\<close> is called exactly if the update object has a \<open>selectedItem\<close> key whose value
  differs from the prior selected item, unless that value is \<open>undefined\<close>: the source keeps
  the argument for \<open>onChange\<close> in a variable, \<open>onChangeArg\<close>, and takes \<open>undefined\<close> in it
  to mean that the selected item did not change.
\<close>

lemma internalSetState_calls:
  assumes quiet: "\<forall>d. fired (cb d) = fired d"
  shows "((\<exists>v h. OnSelect v h \<in> set (drop (length (fired c)) (fired (internalSetState stateToSet cb c))))
            \<longleftrightarrow> hasOwnProperty (update_of c stateToSet) ''selectedItem'')
       \<and> (\<forall>v h. OnSelect v h \<in> set (drop (length (fired c)) (fired (internalSetState stateToSet cb c)))
            \<longrightarrow> v = obj_get (update_of c stateToSet) ''selectedItem'')
       \<and> ((\<exists>v h. OnChange v h \<in> set (drop (length (fired c)) (fired (internalSetState stateToSet cb c))))
            \<longleftrightarrow> hasOwnProperty (update_of c stateToSet) ''selectedItem''
                \<and> obj_get (update_of c stateToSet) ''selectedItem''
                     \<noteq> obj_get (getState c (state c)) ''selectedItem''
                \<and> obj_get (update_of c stateToSet) ''selectedItem'' \<noteq> Undefined)
       \<and> (\<forall>v h. OnChange v h \<in> set (drop (length (fired c)) (fired (internalSetState stateToSet cb c)))
            \<longrightarrow> v = obj_get (update_of c stateToSet) ''selectedItem'')"
proof -
  let ?d = "cb (commit stateToSet c)"
  have new: "drop (length (fired c)) (fired (internalSetState stateToSet cb c)) =
               early_calls c stateToSet @ late_calls c stateToSet ?d"
    using fired_internalSetState_quiet [OF quiet, of stateToSet c] by simp
  show ?thesis
    unfolding new
    by (simp add: early_calls_kind OnSelect_late_calls OnChange_late_calls)
qed

text \<open>
  C4. A change of the selected item to \<open>undefined\<close> is not passed to \<open>onChange\<close>, against
  the comment of \<open>internalSetState\<close> (\<open>we'll call this.props.onChange if the
  selectedItem is changed\<close>). With an item selected and the list open without a
  highlighted item, Enter selects \<open>undefined\<close>: the selected item changes from the item to
  \<open>undefined\<close> and \<open>onSelect\<close> is called, but \<open>onChange\<close> is not; the calls made are exactly
  the three listed. On the same component \<open>clearSelection\<close>, which changes the selected
  item to \<open>null\<close>, does call \<open>onChange\<close>.
\<close>

theorem onChange_missed_for_undefined:
  "obj_get (getState sample_selected (state sample_selected)) ''selectedItem'' = Ref 1
   \<and> \<not> isl (input_handleKeyDown ''Enter'' False sample_selected)
   \<and> obj_get (state (projr (input_handleKeyDown ''Enter'' False sample_selected))) ''selectedItem''
        = Undefined
   \<and> drop (length (fired sample_selected))
         (fired (projr (input_handleKeyDown ''Enter'' False sample_selected))) =
        [OnInputValueChange (Str [])
           [(''highlightedIndex'', Null), (''inputValue'', Str []), (''isOpen'', Bool False),
            (''selectedItem'', Undefined), (''type'', Str keyDownEnter)],
         OnStateChange
           [(''isOpen'', Bool False), (''selectedItem'', Undefined),
            (''inputValue'', Str []), (''type'', Str keyDownEnter)]
           [(''highlightedIndex'', Null), (''inputValue'', Str []), (''isOpen'', Bool False),
            (''selectedItem'', Undefined)],
         OnSelect Undefined
           [(''highlightedIndex'', Null), (''inputValue'', Str []), (''isOpen'', Bool False),
            (''selectedItem'', Undefined)]]
   \<and> obj_get (state (clearSelection noop sample_selected)) ''selectedItem'' = Null
   \<and> drop (length (fired sample_selected)) (fired (clearSelection noop sample_selected)) =
        [OnInputValueChange (Str [])
           [(''highlightedIndex'', Null), (''inputValue'', Str []), (''isOpen'', Bool False),
            (''selectedItem'', Null)],
         OnStateChange
           [(''selectedItem'', Null), (''inputValue'', Str []), (''isOpen'', Bool False),
            (''type'', Str type_unknown)]
           [(''highlightedIndex'', Null), (''inputValue'', Str []), (''isOpen'', Bool False),
            (''selectedItem'', Null)],
         OnSelect Null
           [(''highlightedIndex'', Null), (''inputValue'', Str []), (''isOpen'', Bool False),
            (''selectedItem'', Null)],
         OnChange Null
           [(''highlightedIndex'', Null), (''inputValue'', Str []), (''isOpen'', Bool False),
            (''selectedItem'', Null)]]"
  by code_simp

lemma hasOwnProperty_Nil [simp]: "\<not> hasOwnProperty [] k"
  by (simp add: hasOwnProperty_def)

lemma hasOwnProperty_Cons [simp]:
  "hasOwnProperty ((k', v) # ob) k = (k = k' \<or> hasOwnProperty ob k)"
  by (auto simp: hasOwnProperty_def)

lemma obj_get_Nil [simp]: "obj_get [] k = Undefined"
  by (simp add: obj_get_def)

lemma obj_get_Cons [simp]: "obj_get ((k', v) # ob) k = (if k = k' then v else obj_get ob k)"
  by (simp add: obj_get_def)

lemma stored_after_update:
  assumes dist: "distinct (map fst (update_of c stateToSet))"
    and cb: "\<forall>d. state (cb d) = state d"
    and k: "key \<noteq> ''type''"
    and unc: "\<not> isControlledProp c key"
    and has: "hasOwnProperty (update_of c stateToSet) key"
  shows "obj_get (state (internalSetState stateToSet cb c)) key = obj_get (update_of c stateToSet) key"
    and "hasOwnProperty (state (internalSetState stateToSet cb c)) key"
proof -
  let ?n = "nextState_of c stateToSet"
  have st: "state (internalSetState stateToSet cb c) = spread (state c) ?n"
    using cb by (simp add: state_internalSetState state_commit)
  have dn: "distinct (map fst ?n)"
    unfolding nextState_of_def using dist by (intro distinct_filter_obj distinct_with_type)
  have hn: "hasOwnProperty ?n key"
    using k unc has by (simp add: nextState_of_def hasOwnProperty_filter_keys)
  have "obj_get ?n key = obj_get (update_of c stateToSet) key"
    using k unc by (simp add: nextState_of_def obj_get_filter_keys obj_get_with_type)
  then show "obj_get (state (internalSetState stateToSet cb c)) key = obj_get (update_of c stateToSet) key"
    using dn hn by (simp add: st obj_get_spread)
  show "hasOwnProperty (state (internalSetState stateToSet cb c)) key"
    using hn by (simp add: st)
qed

lemma select_update_props:
  "distinct (map fst (select_update c item iv other))"
  "hasOwnProperty (select_update c item iv other) ''isOpen''"
  "hasOwnProperty (select_update c item iv other) ''inputValue''"
  "hasOwnProperty (select_update c item iv other) ''selectedItem''"
  "obj_get (select_update c item iv other) ''isOpen'' =
     (if hasOwnProperty other ''isOpen'' then obj_get other ''isOpen'' else Bool False)"
  "obj_get (select_update c item iv other) ''inputValue'' =
     (if hasOwnProperty other ''inputValue'' then obj_get other ''inputValue'' else iv)"
  "obj_get (select_update c item iv other) ''selectedItem'' =
     (if hasOwnProperty other ''selectedItem'' then obj_get other ''selectedItem'' else item)"
  unfolding select_update_def
  by (simp_all add: distinct_spread obj_get_spread distinct_pickState hasOwnProperty_pickState
        obj_get_pickState stateKeys_def)

lemma sets_field_internalSetState:
  assumes dist: "distinct (map fst (update_of c stateToSet))"
    and cbs: "\<forall>d. state (cb d) = state d" and cbf: "\<forall>d. fired (cb d) = fired d"
    and nt: "\<not> hasOwnProperty (state c) ''type''"
    and k: "key \<noteq> ''type''" and has: "hasOwnProperty (update_of c stateToSet) key"
  shows "sets_field c (internalSetState stateToSet cb c) key (obj_get (update_of c stateToSet) key)"
proof (cases "isControlledProp c key")
  case False
  then show ?thesis
    using stored_after_update(1) [OF dist cbs k False has] by (simp add: sets_field_def)
next
  case True
  let ?v = "obj_get (update_of c stateToSet) key"
  let ?d = "cb (commit stateToSet c)"
  show ?thesis
  proof (cases "obj_get (getState c (state c)) key = ?v")
    case True
    with \<open>isControlledProp c key\<close> show ?thesis by (simp add: sets_field_def)
  next
    case False
    then have diff: "?v \<noteq> obj_get (getState c (state c)) key" by simp
    let ?n = "OnStateChange (onStateChangeArg_of c stateToSet) (getStateAndHelpers ?d)"
    have "?n \<in> set (late_calls c stateToSet ?d)"
      by (rule changed_key_reported(1) [OF nt k has diff])
    then have "?n \<in> set (drop (length (fired c)) (fired (internalSetState stateToSet cb c)))"
      using fired_internalSetState_quiet [OF cbf, of stateToSet c] by simp
    moreover have "reports key ?v ?n"
      using changed_key_reported(2) [OF nt k has diff] by (simp add: reports_def)
    ultimately have "list_ex (reports key ?v)
        (drop (length (fired c)) (fired (internalSetState stateToSet cb c)))"
      unfolding list_ex_iff by blast
    with True show ?thesis by (simp add: sets_field_def)
  qed
qed

text \<open>
  \<open>this.state\<close> never has a property \<open>type\<close>: the constructor creates none, and an update
  never stores one.
\<close>

lemma no_type_Autocomplete: "\<not> hasOwnProperty (state (Autocomplete p)) ''type''"
  by (simp add: Autocomplete_def Let_def)

lemma no_type_internalSetState:
  assumes "\<forall>d. state (cb d) = state d" and "\<not> hasOwnProperty (state c) ''type''"
  shows "\<not> hasOwnProperty (state (internalSetState stateToSet cb c)) ''type''"
  using assms by (simp add: state_internalSetState state_commit not_in_nextState_type)

lemma quiet_noop: "\<forall>d. state (noop d) = state d" "\<forall>d. fired (noop d) = fired d"
  by (simp_all add: noop_def)

lemma selectItem_plain:
  "isControlledProp c ''selectedItem'' \<longrightarrow> breakingChanges (props c) = Some False \<Longrightarrow>
   selectItem item other cb c =
     Inr (internalSetState (Inr (select_update c item (Str (itemToString (props c) item)) other)) cb c)"
  by (auto simp: selectItem_def select_update_def Let_def)

lemma selectItem_sets:
  assumes sel: "isControlledProp c ''selectedItem'' \<longrightarrow> breakingChanges (props c) = Some False"
    and cbs: "\<forall>d. state (cb d) = state d" and cbf: "\<forall>d. fired (cb d) = fired d"
    and nt: "\<not> hasOwnProperty (state c) ''type''"
  shows "\<exists>c'. selectItem item other cb c = Inr c'
     \<and> sets_field c c' ''isOpen''
          (if hasOwnProperty other ''isOpen'' then obj_get other ''isOpen'' else Bool False)
     \<and> sets_field c c' ''inputValue''
          (if hasOwnProperty other ''inputValue'' then obj_get other ''inputValue''
           else Str (itemToString (props c) item))
     \<and> sets_field c c' ''selectedItem''
          (if hasOwnProperty other ''selectedItem'' then obj_get other ''selectedItem'' else item)
     \<and> (\<exists>h. OnSelect (if hasOwnProperty other ''selectedItem'' then obj_get other ''selectedItem'' else item) h
              \<in> set (drop (length (fired c)) (fired c')))"
proof -
  let ?u = "select_update c item (Str (itemToString (props c) item)) other"
  let ?c' = "internalSetState (Inr ?u) cb c"
  have u: "update_of c (Inr ?u) = ?u" by (simp add: update_of_def)
  have d: "distinct (map fst (update_of c (Inr ?u)))" by (simp add: u select_update_props)
  note S = sets_field_internalSetState [OF d cbs cbf nt, unfolded u]
  have "OnSelect (obj_get (update_of c (Inr ?u)) ''selectedItem'') (getStateAndHelpers (cb (commit (Inr ?u) c)))
          \<in> set (late_calls c (Inr ?u) (cb (commit (Inr ?u) c)))"
    by (simp add: OnSelect_late_calls u select_update_props)
  then have "\<exists>h. OnSelect (obj_get ?u ''selectedItem'') h \<in> set (drop (length (fired c)) (fired ?c'))"
    using fired_internalSetState_quiet [OF cbf, of "Inr ?u" c] by (auto simp: u)
  then show ?thesis
    unfolding selectItem_plain [OF sel]
    using S [of "''isOpen''"] S [of "''inputValue''"] S [of "''selectedItem''"]
    by (simp add: select_update_props)
qed

lemma reset_sets:
  assumes cbs: "\<forall>d. state (cb d) = state d" and cbf: "\<forall>d. fired (cb d) = fired d"
    and nt: "\<not> hasOwnProperty (state c) ''type''"
    and o1: "\<not> hasOwnProperty other ''isOpen''" and o2: "\<not> hasOwnProperty other ''inputValue''"
  shows "sets_field c (reset other cb c) ''isOpen'' (Bool False)
     \<and> sets_field c (reset other cb c) ''inputValue''
          (Str (itemToString (props c) (obj_get (getState c (state c)) ''selectedItem'')))"
proof -
  let ?f = "\<lambda>st. spread [(''isOpen'', Bool False),
                          (''highlightedIndex'', this_props c ''defaultHighlightedIndex''),
                          (''inputValue'', Str (itemToString (props c) (obj_get st ''selectedItem'')))]
                    (pickState other)"
  have r: "reset other cb c = internalSetState (Inl ?f) cb c"
    by (simp add: reset_def Let_def)
  have u: "update_of c (Inl ?f) = ?f (getState c (state c))" by (simp add: update_of_def)
  have d: "distinct (map fst (update_of c (Inl ?f)))"
    unfolding u by (simp add: distinct_spread)
  note S = sets_field_internalSetState [OF d cbs cbf nt, unfolded u]
  show ?thesis
    unfolding r
    using S [of "''isOpen''"] S [of "''inputValue''"] o1 o2
    by (simp add: obj_get_spread distinct_pickState hasOwnProperty_pickState)
qed

subsection \<open>Escape and blur\<close>

text \<open>
  C5. In every state of an instance (its state has no property \<open>type\<close>, as the
  constructor builds it and every update leaves it), an Escape key press, and a blur of
  the input while no pointer button is held down, set \<open>inputValue\<close> to \<open>itemToString\<close> of the
  current selected item and \<open>isOpen\<close> to \<open>false\<close>: a field the component owns is stored
  with that value, a controlled field is reported to its owner through \<open>onStateChange\<close>
  unless it has that value already. The default \<open>itemToString\<close> gives the empty string
  when there is no selection (\<open>null\<close> or \<open>undefined\<close>).
\<close>

theorem escape_and_blur_reset:
  assumes nt: "\<not> hasOwnProperty (state c) ''type''"
  shows "(\<exists>c'. input_handleKeyDown ''Escape'' shiftKey c = Inr c'
            \<and> sets_field c c' ''isOpen'' (Bool False)
            \<and> sets_field c c' ''inputValue''
                 (Str (itemToString (props c) (obj_get (getState c (state c)) ''selectedItem''))))
       \<and> (\<not> isMouseDown c \<longrightarrow>
            sets_field c (input_handleBlur c) ''isOpen'' (Bool False)
            \<and> sets_field c (input_handleBlur c) ''inputValue''
                 (Str (itemToString (props c) (obj_get (getState c (state c)) ''selectedItem''))))
       \<and> default_itemToString Null = [] \<and> default_itemToString Undefined = []"
proof -
  have "input_handleKeyDown ''Escape'' shiftKey c = Inr (reset [(''type'', Str keyDownEscape)] noop c)"
    by (simp add: input_handleKeyDown_def)
  moreover have "\<not> isMouseDown c \<Longrightarrow> input_handleBlur c = reset [(''type'', Str blurInput)] noop c"
    by (simp add: input_handleBlur_def)
  ultimately show ?thesis
    using reset_sets [OF quiet_noop nt, of "[(''type'', Str keyDownEscape)]"]
      reset_sets [OF quiet_noop nt, of "[(''type'', Str blurInput)]"]
    by (simp add: default_itemToString_def)
qed

theorem escape_and_blur_reset_witness:
  "\<not> hasOwnProperty (state sample_typed) ''type'' \<and> \<not> isMouseDown sample_typed
   \<and> obj_get (state sample_typed) ''isOpen'' = Bool True
   \<and> obj_get (state sample_typed) ''inputValue'' = Str ''Ber''
   \<and> obj_get (state (projr (input_handleKeyDown ''Escape'' False sample_typed))) ''isOpen'' = Bool False
   \<and> obj_get (state (projr (input_handleKeyDown ''Escape'' False sample_typed))) ''inputValue''
        = Str ''[object Object]''
   \<and> obj_get (state (input_handleBlur sample_typed)) ''isOpen'' = Bool False
   \<and> obj_get (state (input_handleBlur sample_typed)) ''inputValue'' = Str ''[object Object]''
   \<and> \<not> hasOwnProperty (state sample_controlled) ''type''
   \<and> isControlledProp sample_controlled ''isOpen''
   \<and> list_ex (reports ''isOpen'' (Bool False))
        (fired (projr (input_handleKeyDown ''Escape'' False sample_controlled)))"
proof -
  have h1: "\<not> hasOwnProperty (state sample_typed) ''type''" by code_simp
  have h2: "\<not> isControlledProp sample_typed ''isOpen''" "\<not> isControlledProp sample_typed ''inputValue''"
    by code_simp+
  have h3: "\<not> isMouseDown sample_typed" by code_simp
  have h4: "obj_get (state sample_typed) ''isOpen'' = Bool True" by code_simp
  have h5: "obj_get (state sample_typed) ''inputValue'' = Str ''Ber''" by code_simp
  have h6: "itemToString (props sample_typed)
              (obj_get (getState sample_typed (state sample_typed)) ''selectedItem'') = ''[object Object]''"
    by code_simp
  have k1: "\<not> hasOwnProperty (state sample_controlled) ''type''" by code_simp
  have k2: "isControlledProp sample_controlled ''isOpen''" by code_simp
  have k3: "obj_get (getState sample_controlled (state sample_controlled)) ''isOpen'' = Bool True"
    by code_simp
  have k4: "fired sample_controlled = []" by code_simp
  from escape_and_blur_reset [OF h1, of False] h2 h3 h6
  have A: "obj_get (state (projr (input_handleKeyDown ''Escape'' False sample_typed))) ''isOpen'' = Bool False
     \<and> obj_get (state (projr (input_handleKeyDown ''Escape'' False sample_typed))) ''inputValue''
          = Str ''[object Object]''
     \<and> obj_get (state (input_handleBlur sample_typed)) ''isOpen'' = Bool False
     \<and> obj_get (state (input_handleBlur sample_typed)) ''inputValue'' = Str ''[object Object]''"
    by (auto simp: sets_field_def)
  from escape_and_blur_reset [OF k1, of False] k2 k3 k4
  have B: "list_ex (reports ''isOpen'' (Bool False))
        (fired (projr (input_handleKeyDown ''Escape'' False sample_controlled)))"
    by (auto simp: sets_field_def)
  show ?thesis using h1 h3 h4 h5 A k1 k2 B by simp
qed

subsection \<open>Selecting an item\<close>




subsection \<open>Enter without a highlighted item\<close>

text \<open>
  When the list is open and the highlighted index is \<open>null\<close> or names no stored item
  (\<open>this.items\<close> reads as \<open>undefined\<close> there), Enter goes on to \<open>selectItem\<close>, with the item
  \<open>undefined\<close>: the guard of \<open>selectItemAtIndex\<close> stops only at an item that is \<open>null\<close>.
  Where \<open>selectItem\<close> does not throw (\<open>selectedItem\<close> not controlled, or \<open>breakingChanges\<close>
  supplied with \<open>resetInputOnSelection\<close> off) the list closes, \<open>selectedItem\<close> is set to
  \<open>undefined\<close>, \<open>onSelect\<close> is called with \<open>undefined\<close>, and \<open>inputValue\<close> is set to
  \<open>itemToString(undefined)\<close>, the empty string for the default \<open>itemToString\<close>.
\<close>

lemma enter_selects_undefined:
  assumes opn: "truthy (obj_get (getState c (state c)) ''isOpen'')"
    and none: "obj_get (getState c (state c)) ''highlightedIndex'' = Null
               \<or> item_at c (obj_get (getState c (state c)) ''highlightedIndex'') = Some Undefined"
  shows "input_handleKeyDown ''Enter'' shiftKey c
           = selectItem Undefined [(''type'', Str keyDownEnter)] noop c
       \<and> ((isControlledProp c ''selectedItem'' \<longrightarrow> breakingChanges (props c) = Some False) \<longrightarrow>
           \<not> hasOwnProperty (state c) ''type'' \<longrightarrow>
            (\<exists>c'. input_handleKeyDown ''Enter'' shiftKey c = Inr c'
               \<and> sets_field c c' ''isOpen'' (Bool False)
               \<and> sets_field c c' ''selectedItem'' Undefined
               \<and> sets_field c c' ''inputValue'' (Str (itemToString (props c) Undefined))
               \<and> (\<exists>h. OnSelect Undefined h \<in> set (drop (length (fired c)) (fired c')))))
       \<and> default_itemToString Undefined = []
       \<and> (item_at c i = Some Null \<longrightarrow> selectItemAtIndex i other cb c = Inr c)"
proof (intro conjI impI)
  let ?hi = "obj_get (getState c (state c)) ''highlightedIndex''"
  have und: "item_at c ?hi = Some Undefined"
    using none by (auto simp: item_at_def)
  show e: "input_handleKeyDown ''Enter'' shiftKey c = selectItem Undefined [(''type'', Str keyDownEnter)] noop c"
    using opn und
    by (simp add: input_handleKeyDown_def selectHighlightedItem_def selectItemAtIndex_def)
  show "\<exists>c'. input_handleKeyDown ''Enter'' shiftKey c = Inr c'
               \<and> sets_field c c' ''isOpen'' (Bool False)
               \<and> sets_field c c' ''selectedItem'' Undefined
               \<and> sets_field c c' ''inputValue'' (Str (itemToString (props c) Undefined))
               \<and> (\<exists>h. OnSelect Undefined h \<in> set (drop (length (fired c)) (fired c')))"
    if "isControlledProp c ''selectedItem'' \<longrightarrow> breakingChanges (props c) = Some False"
      and "\<not> hasOwnProperty (state c) ''type''"
    using selectItem_sets [OF that(1) quiet_noop that(2), of Undefined "[(''type'', Str keyDownEnter)]"]
    unfolding e by auto
next
  show "default_itemToString Undefined = []" by (simp add: default_itemToString_def)
next
  assume "item_at c i = Some Null"
  then show "selectItemAtIndex i other cb c = Inr c"
    by (simp add: selectItemAtIndex_def)
qed

lemma enter_selects_undefined_example:
  "truthy (obj_get (getState sample_open (state sample_open)) ''isOpen'')
   \<and> obj_get (getState sample_open (state sample_open)) ''highlightedIndex'' = Null
   \<and> \<not> isControlledProp sample_open ''selectedItem''
   \<and> \<not> hasOwnProperty (state sample_open) ''type''
   \<and> (\<exists>c'. input_handleKeyDown ''Enter'' False sample_open = Inr c'
          \<and> obj_get (state c') ''isOpen'' = Bool False
          \<and> obj_get (state c') ''selectedItem'' = Undefined
          \<and> obj_get (state c') ''inputValue'' = Str [])"
proof -
  let ?c = sample_open
  have h1: "truthy (obj_get (getState ?c (state ?c)) ''isOpen'')" by code_simp
  have h2: "obj_get (getState ?c (state ?c)) ''highlightedIndex'' = Null" by code_simp
  have h3: "\<not> isControlledProp ?c ''selectedItem''" by code_simp
  have h4: "\<not> isControlledProp ?c ''isOpen''" by code_simp
  have h5: "\<not> isControlledProp ?c ''inputValue''" by code_simp
  have h6: "itemToString (props ?c) Undefined = []" by code_simp
  have h7: "\<not> hasOwnProperty (state ?c) ''type''" by code_simp
  have h0: "isControlledProp ?c ''selectedItem'' \<longrightarrow> breakingChanges (props ?c) = Some False"
    using h3 by simp
  from enter_selects_undefined
         [OF h1 disjI1 [OF h2], where shiftKey = False and i = Null and other = "[]" and cb = noop]
       h0 h7
  obtain c' where r: "input_handleKeyDown ''Enter'' False ?c = Inr c'"
    and s: "sets_field ?c c' ''isOpen'' (Bool False)" "sets_field ?c c' ''selectedItem'' Undefined"
           "sets_field ?c c' ''inputValue'' (Str (itemToString (props ?c) Undefined))"
    by blast
  from s h3 h4 h5 h6 have "obj_get (state c') ''isOpen'' = Bool False"
      "obj_get (state c') ''selectedItem'' = Undefined" "obj_get (state c') ''inputValue'' = Str []"
    by (simp_all add: sets_field_def)
  with r have "\<exists>c'. input_handleKeyDown ''Enter'' False ?c = Inr c'
          \<and> obj_get (state c') ''isOpen'' = Bool False
          \<and> obj_get (state c') ''selectedItem'' = Undefined
          \<and> obj_get (state c') ''inputValue'' = Str []"
    by blast
  then show ?thesis using h1 h2 h3 h7 by blast
qed

text \<open>
  C9. On a component whose \<open>selectedItem\<close> is controlled, Enter on the open list without a
  highlighted item does not select: it throws a TypeError. \<open>selectItem\<close> reads
  \<open>this.props.breakingChanges.resetInputOnSelection\<close> once \<open>selectedItem\<close> is controlled,
  and \<open>breakingChanges\<close> is neither declared in \<open>propTypes\<close> nor given a default, so a
  component that is not passed this prop reads a property of \<open>undefined\<close>. The list stays
  open and no callback prop is called.
\<close>

theorem enter_on_controlled_selection_throws:
  "truthy (obj_get (getState sample_controlled_selection (state sample_controlled_selection)) ''isOpen'')
   \<and> obj_get (getState sample_controlled_selection (state sample_controlled_selection))
         ''highlightedIndex'' = Null
   \<and> this_props sample_controlled_selection ''selectedItem'' = Ref 1
   \<and> breakingChanges (props sample_controlled_selection) = None
   \<and> isl (input_handleKeyDown ''Enter'' False sample_controlled_selection)
   \<and> projl (input_handleKeyDown ''Enter'' False sample_controlled_selection) = TypeError"
  by code_simp

lemma commit_fields [simp]:
  "props (commit stateToSet c) = props c"
  "items (commit stateToSet c) = items c"
  "itemCount (commit stateToSet c) = itemCount c"
  "isMouseDown (commit stateToSet c) = isMouseDown c"
  by (simp_all add: commit_def)

lemma internalSetState_noop_fields [simp]:
  "props (internalSetState stateToSet noop c) = props c"
  "items (internalSetState stateToSet noop c) = items c"
  "itemCount (internalSetState stateToSet noop c) = itemCount c"
  "isMouseDown (internalSetState stateToSet noop c) = isMouseDown c"
  by (simp_all add: internalSetState_eq Let_def noop_def)

lemma state_internalSetState_noop:
  "state (internalSetState stateToSet noop c) = spread (state c) (nextState_of c stateToSet)"
  by (simp add: state_internalSetState state_commit noop_def)

lemma map_of_untouched:
  "\<not> hasOwnProperty (update_of c stateToSet) key \<Longrightarrow>
   map_of (state (internalSetState stateToSet noop c)) key = map_of (state c) key"
  by (cases "key = ''type''")
     (simp_all add: state_internalSetState_noop map_of_spread_other nextState_of_def
        hasOwnProperty_filter_keys)

lemma same_props:
  "props c' = props c \<Longrightarrow> isControlledProp c' k = isControlledProp c k"
  "props c' = props c \<Longrightarrow> this_props c' k = this_props c k"
  by (simp_all add: isControlledProp_def this_props_def)

lemma merged_untouched:
  assumes "props c' = props c" and "map_of (state c') key = map_of (state c) key"
  shows "obj_get (getState c' (state c')) key = obj_get (getState c (state c)) key"
proof -
  have "isControlledProp c' key = isControlledProp c key" "this_props c' key = this_props c key"
    using assms(1) by (simp_all add: isControlledProp_def this_props_def)
  then show ?thesis
    using assms(2) by (simp add: obj_get_def map_of_getState split: option.splits)
qed

lemma getItemCount_cong:
  "props c' = props c \<Longrightarrow> items c' = items c \<Longrightarrow> itemCount c' = itemCount c \<Longrightarrow>
   getItemCount c' = getItemCount c"
  by (simp add: getItemCount_def this_props_def)

lemma moved_index_range:
  "0 \<le> l \<Longrightarrow> 0 \<le> moved_index l hi a \<and> moved_index l hi a \<le> l"
  by (simp add: moved_index_def Let_def)

lemma changeHighlightedIndex_open:
  assumes "getItemCount c = Num n" and "0 < n"
    and "obj_get (getState c (state c)) ''highlightedIndex'' = hi"
    and "hi = Null \<or> (\<exists>b. hi = Num b)"
  shows "changeHighlightedIndex a other c =
           Inr (setHighlightedIndex (Num (moved_index (n - 1) hi a)) other c)"
  using assms by (auto simp: changeHighlightedIndex_def moved_index_def Let_def)

lemma setHighlightedIndex_typed:
  fixes c :: component and j :: int and t :: string
  defines "c' \<equiv> setHighlightedIndex (Num j) [(''type'', Str t)] c"
  assumes unc: "\<not> isControlledProp c ''highlightedIndex''"
  shows "obj_get (state c') ''highlightedIndex'' = Num j"
    and "props c' = props c" and "items c' = items c" and "itemCount c' = itemCount c"
    and "key \<noteq> ''highlightedIndex'' \<Longrightarrow> map_of (state c') key = map_of (state c) key"
proof -
  let ?u = "spread [(''highlightedIndex'', Num j)] (pickState [(''type'', Str t)])"
  have c': "c' = internalSetState (Inr ?u) noop c"
    by (simp add: c'_def setHighlightedIndex_def)
  have u: "update_of c (Inr ?u) = ?u" by (simp add: update_of_def)
  have d: "distinct (map fst (update_of c (Inr ?u)))" by (simp add: u distinct_spread)
  have cb: "\<forall>d. state (noop d) = state d" by (simp add: noop_def)
  have h: "hasOwnProperty ?u k \<longleftrightarrow> k = ''highlightedIndex'' \<or> k = ''type''" for k
    by (auto simp: hasOwnProperty_pickState stateKeys_def)
  show "obj_get (state c') ''highlightedIndex'' = Num j"
    using stored_after_update(1) [OF d cb _ unc, unfolded u]
    by (simp add: c' h obj_get_spread distinct_pickState hasOwnProperty_pickState obj_get_pickState
          stateKeys_def)
  show "props c' = props c" "items c' = items c" "itemCount c' = itemCount c"
    by (simp_all add: c')
  show "map_of (state c') key = map_of (state c) key" if "key \<noteq> ''highlightedIndex''"
  proof (cases "key = ''type''")
    case True
    then show ?thesis
      by (simp add: c' state_internalSetState_noop map_of_spread_other not_in_nextState_type)
  next
    case False
    with that have "\<not> hasOwnProperty ?u key" using h [of key] by blast
    then have "\<not> hasOwnProperty (update_of c (Inr ?u)) key" unfolding u .
    then show ?thesis unfolding c' by (rule map_of_untouched)
  qed
qed

lemma arrow_open_step:
  assumes cnt: "getItemCount c = Num n" and pos: "0 < n"
    and unc: "\<not> isControlledProp c ''highlightedIndex''"
    and opn: "truthy (obj_get (getState c (state c)) ''isOpen'')"
    and idx: "obj_get (state c) ''highlightedIndex'' = Null \<or> (\<exists>b. obj_get (state c) ''highlightedIndex'' = Num b)"
    and key: "key = ''ArrowDown'' \<or> key = ''ArrowUp''"
  shows "\<exists>c'. input_handleKeyDown key shiftKey c = Inr c'
           \<and> obj_get (state c') ''highlightedIndex'' =
                Num (moved_index (n - 1) (obj_get (state c) ''highlightedIndex'')
                       (if key = ''ArrowDown'' then (if shiftKey then 5 else 1)
                        else (if shiftKey then - 5 else - 1)))
           \<and> getItemCount c' = Num n
           \<and> \<not> isControlledProp c' ''highlightedIndex''
           \<and> truthy (obj_get (getState c' (state c')) ''isOpen'')"
proof -
  let ?hi = "obj_get (state c) ''highlightedIndex''"
  let ?a = "if key = ''ArrowDown'' then (if shiftKey then 5 else 1) else (if shiftKey then - 5 else - 1 :: int)"
  let ?t = "if key = ''ArrowDown'' then keyDownArrowDown else keyDownArrowUp"
  let ?c' = "setHighlightedIndex (Num (moved_index (n - 1) ?hi ?a)) [(''type'', Str ?t)] c"
  have g: "obj_get (getState c (state c)) ''highlightedIndex'' = ?hi"
    using unc by (simp add: obj_get_getState)
  have "input_handleKeyDown key shiftKey c = moveHighlightedIndex ?a [(''type'', Str ?t)] c"
    using key by (auto simp: input_handleKeyDown_def)
  also have "\<dots> = changeHighlightedIndex ?a [(''type'', Str ?t)] c"
    using opn by (simp add: moveHighlightedIndex_def)
  also have "\<dots> = Inr ?c'"
    using changeHighlightedIndex_open [OF cnt pos g idx] .
  finally have r: "input_handleKeyDown key shiftKey c = Inr ?c'" .
  note S = setHighlightedIndex_typed [OF unc, where j = "moved_index (n - 1) ?hi ?a" and t = ?t]
  have "getItemCount ?c' = Num n"
    using getItemCount_cong [OF S(2) S(3) S(4)] cnt by simp
  moreover have "\<not> isControlledProp ?c' ''highlightedIndex''"
    using unc S(2) by (simp add: isControlledProp_def this_props_def)
  moreover have "obj_get (getState ?c' (state ?c')) ''isOpen'' = obj_get (getState c (state c)) ''isOpen''"
    by (rule merged_untouched [OF S(2)]) (rule S(5), simp)
  ultimately show ?thesis
    using r S(1) opn by simp
qed

lemma arrow_open_sequence:
  assumes "getItemCount c = Num n" and "0 < n"
    and "\<not> isControlledProp c ''highlightedIndex''"
    and "truthy (obj_get (getState c (state c)) ''isOpen'')"
    and "obj_get (state c) ''highlightedIndex'' = Null \<or> (\<exists>b. obj_get (state c) ''highlightedIndex'' = Num b)"
    and "\<forall>k \<in> set ks. arrow_key k" and "ks \<noteq> []"
  shows "\<exists>c' j. press_keys ks c = Inr c' \<and> obj_get (state c') ''highlightedIndex'' = Num j
           \<and> 0 \<le> j \<and> j < n"
  using assms
proof (induction ks arbitrary: c)
  case Nil
  then show ?case by simp
next
  case (Cons k ks)
  obtain key shiftKey where k: "k = (key, shiftKey)" by (cases k)
  from Cons.prems(6) k have key: "key = ''ArrowDown'' \<or> key = ''ArrowUp''"
    by (simp add: arrow_key_def)
  from arrow_open_step [OF Cons.prems(1-5) key, of shiftKey]
  obtain c' where c': "input_handleKeyDown key shiftKey c = Inr c'"
    and hi: "obj_get (state c') ''highlightedIndex'' =
                Num (moved_index (n - 1) (obj_get (state c) ''highlightedIndex'')
                       (if key = ''ArrowDown'' then (if shiftKey then 5 else 1)
                        else (if shiftKey then - 5 else - 1)))"
    and inv: "getItemCount c' = Num n" "\<not> isControlledProp c' ''highlightedIndex''"
             "truthy (obj_get (getState c' (state c')) ''isOpen'')"
    by blast
  have step: "press_keys (k # ks) c = press_keys ks c'"
    by (simp add: k c')
  show ?case
  proof (cases "ks = []")
    case True
    have "0 \<le> n - 1" using Cons.prems(2) by simp
    from moved_index_range [OF this] hi True step show ?thesis by auto
  next
    case False
    have "\<exists>c'' j. press_keys ks c' = Inr c'' \<and> obj_get (state c'') ''highlightedIndex'' = Num j
           \<and> 0 \<le> j \<and> j < n"
      using Cons.prems(6) False hi
      by (intro Cons.IH [OF inv(1) Cons.prems(2) inv(2) inv(3)]) auto
    then show ?thesis by (simp add: step)
  qed
qed

lemma arrow_no_items:
  assumes "getItemCount c = Num n" and "n \<le> 0"
    and "truthy (obj_get (getState c (state c)) ''isOpen'')"
    and "\<forall>k \<in> set ks. arrow_key k"
  shows "press_keys ks c = Inr c"
  using assms(4)
proof (induction ks)
  case Nil
  then show ?case by simp
next
  case (Cons k ks)
  obtain key shiftKey where k: "k = (key, shiftKey)" by (cases k)
  from Cons.prems k have key: "key = ''ArrowDown'' \<or> key = ''ArrowUp''"
    by (simp add: arrow_key_def)
  have "input_handleKeyDown key shiftKey c = Inr c"
    using key assms(1-3)
    by (auto simp: input_handleKeyDown_def moveHighlightedIndex_def changeHighlightedIndex_def)
  with Cons k show ?case by simp
qed

text \<open>
  On a closed list an arrow key opens the list and highlights the default index.
\<close>

lemma arrow_closed_opens:
  assumes "\<not> truthy (obj_get (getState c (state c)) ''isOpen'')"
  shows "input_handleKeyDown ''ArrowDown'' shiftKey c =
           Inr (openAndHighlightDefaultIndex [(''type'', Str keyDownArrowDown)] c)"
    and "input_handleKeyDown ''ArrowUp'' shiftKey c =
           Inr (openAndHighlightDefaultIndex [(''type'', Str keyDownArrowUp)] c)"
  using assms by (simp_all add: input_handleKeyDown_def moveHighlightedIndex_def)

lemma setHighlightedIndex_sets:
  assumes nt: "\<not> hasOwnProperty (state c) ''type''"
  shows "sets_field c (setHighlightedIndex (Num j) [(''type'', Str t)] c) ''highlightedIndex'' (Num j)"
proof -
  let ?u = "spread [(''highlightedIndex'', Num j)] (pickState [(''type'', Str t)])"
  have c': "setHighlightedIndex (Num j) [(''type'', Str t)] c = internalSetState (Inr ?u) noop c"
    by (simp add: setHighlightedIndex_def)
  have u: "update_of c (Inr ?u) = ?u" by (simp add: update_of_def)
  have d: "distinct (map fst (update_of c (Inr ?u)))" by (simp add: u distinct_spread)
  show ?thesis
    unfolding c'
    using sets_field_internalSetState [OF d quiet_noop nt, of "''highlightedIndex''", unfolded u]
    by (simp add: obj_get_spread distinct_pickState hasOwnProperty_pickState stateKeys_def)
qed

lemma arrow_open_move:
  assumes cnt: "getItemCount c = Num n" and pos: "0 < n"
    and opn: "truthy (obj_get (getState c (state c)) ''isOpen'')"
    and idx: "obj_get (getState c (state c)) ''highlightedIndex'' = Null
              \<or> (\<exists>b. obj_get (getState c (state c)) ''highlightedIndex'' = Num b)"
    and nt: "\<not> hasOwnProperty (state c) ''type''"
    and key: "key = ''ArrowDown'' \<or> key = ''ArrowUp''"
  shows "\<exists>c'. input_handleKeyDown key shiftKey c = Inr c'
           \<and> sets_field c c' ''highlightedIndex''
                (Num (moved_index (n - 1) (obj_get (getState c (state c)) ''highlightedIndex'')
                       (if key = ''ArrowDown'' then (if shiftKey then 5 else 1)
                        else (if shiftKey then - 5 else - 1))))"
proof -
  let ?hi = "obj_get (getState c (state c)) ''highlightedIndex''"
  let ?a = "if key = ''ArrowDown'' then (if shiftKey then 5 else 1) else (if shiftKey then - 5 else - 1 :: int)"
  let ?t = "if key = ''ArrowDown'' then keyDownArrowDown else keyDownArrowUp"
  let ?c' = "setHighlightedIndex (Num (moved_index (n - 1) ?hi ?a)) [(''type'', Str ?t)] c"
  have "input_handleKeyDown key shiftKey c = moveHighlightedIndex ?a [(''type'', Str ?t)] c"
    using key by (auto simp: input_handleKeyDown_def)
  also have "\<dots> = changeHighlightedIndex ?a [(''type'', Str ?t)] c"
    using opn by (simp add: moveHighlightedIndex_def)
  also have "\<dots> = Inr ?c'"
    using changeHighlightedIndex_open [OF cnt pos refl idx] .
  finally have "input_handleKeyDown key shiftKey c = Inr ?c'" .
  then show ?thesis
    using setHighlightedIndex_sets [OF nt, of "moved_index (n - 1) ?hi ?a" ?t] by simp
qed

subsection \<open>Moving the highlighted index\<close>

text \<open>
  C1 (as amended). With the list open and the highlighted index \<open>null\<close> or an integer:
  when itemCount > 0 every arrow key press (up or down, with or without shift) sets the
  highlighted index to an index within [0, itemCount), so after every non-empty sequence
  of arrow keys the index a component stores is within [0, itemCount); ArrowUp from index
  0 gives the last index and ArrowDown from the last index gives index 0, for both step
  sizes; when itemCount is 0 (or less) every sequence of arrow keys leaves the component
  as it was.
\<close>

theorem arrow_moves_stay_in_range:
  assumes cnt: "getItemCount c = Num n"
    and opn: "truthy (obj_get (getState c (state c)) ''isOpen'')"
    and idx: "obj_get (getState c (state c)) ''highlightedIndex'' = Null
              \<or> (\<exists>b. obj_get (getState c (state c)) ''highlightedIndex'' = Num b)"
    and nt: "\<not> hasOwnProperty (state c) ''type''"
    and keys: "arrow_key (key, shiftKey)" "\<forall>k \<in> set ks. arrow_key k"
  shows "(0 < n \<longrightarrow>
            (\<exists>c' j. input_handleKeyDown key shiftKey c = Inr c' \<and> 0 \<le> j \<and> j < n
                \<and> sets_field c c' ''highlightedIndex'' (Num j)))
       \<and> (0 < n \<longrightarrow> \<not> isControlledProp c ''highlightedIndex'' \<longrightarrow> ks \<noteq> [] \<longrightarrow>
            (\<exists>c' j. press_keys ks c = Inr c' \<and> obj_get (state c') ''highlightedIndex'' = Num j
                \<and> 0 \<le> j \<and> j < n))
       \<and> (0 < n \<longrightarrow> obj_get (getState c (state c)) ''highlightedIndex'' = Num 0 \<longrightarrow>
            (\<exists>c'. input_handleKeyDown ''ArrowUp'' shiftKey c = Inr c'
                \<and> sets_field c c' ''highlightedIndex'' (Num (n - 1))))
       \<and> (0 < n \<longrightarrow> obj_get (getState c (state c)) ''highlightedIndex'' = Num (n - 1) \<longrightarrow>
            (\<exists>c'. input_handleKeyDown ''ArrowDown'' shiftKey c = Inr c'
                \<and> sets_field c c' ''highlightedIndex'' (Num 0)))
       \<and> (n \<le> 0 \<longrightarrow> press_keys ks c = Inr c)"
proof (intro conjI impI)
  assume pos: "0 < n"
  have key: "key = ''ArrowDown'' \<or> key = ''ArrowUp''"
    using keys(1) by (simp add: arrow_key_def)
  let ?j = "moved_index (n - 1) (obj_get (getState c (state c)) ''highlightedIndex'')
              (if key = ''ArrowDown'' then (if shiftKey then 5 else 1)
               else (if shiftKey then - 5 else - 1))"
  have "0 \<le> ?j \<and> ?j \<le> n - 1"
    using pos by (intro moved_index_range) simp
  then show "\<exists>c' j. input_handleKeyDown key shiftKey c = Inr c' \<and> 0 \<le> j \<and> j < n
                \<and> sets_field c c' ''highlightedIndex'' (Num j)"
    using arrow_open_move [OF cnt pos opn idx nt key, of shiftKey] by auto
next
  assume pos: "0 < n" and unc: "\<not> isControlledProp c ''highlightedIndex''" and "ks \<noteq> []"
  have "obj_get (getState c (state c)) ''highlightedIndex'' = obj_get (state c) ''highlightedIndex''"
    using unc by (simp add: obj_get_getState)
  with idx have "obj_get (state c) ''highlightedIndex'' = Null
      \<or> (\<exists>b. obj_get (state c) ''highlightedIndex'' = Num b)" by simp
  from arrow_open_sequence [OF cnt pos unc opn this keys(2) \<open>ks \<noteq> []\<close>]
  show "\<exists>c' j. press_keys ks c = Inr c' \<and> obj_get (state c') ''highlightedIndex'' = Num j
                \<and> 0 \<le> j \<and> j < n" .
next
  assume pos: "0 < n" and z: "obj_get (getState c (state c)) ''highlightedIndex'' = Num 0"
  have "moved_index (n - 1) (Num 0) (if shiftKey then - 5 else - 1) = n - 1"
    using pos by (simp add: moved_index_def)
  then show "\<exists>c'. input_handleKeyDown ''ArrowUp'' shiftKey c = Inr c'
                \<and> sets_field c c' ''highlightedIndex'' (Num (n - 1))"
    using arrow_open_move [OF cnt pos opn idx nt, of "''ArrowUp''" shiftKey] z by auto
next
  assume pos: "0 < n" and l: "obj_get (getState c (state c)) ''highlightedIndex'' = Num (n - 1)"
  have "moved_index (n - 1) (Num (n - 1)) (if shiftKey then 5 else 1) = 0"
    using pos by (simp add: moved_index_def)
  then show "\<exists>c'. input_handleKeyDown ''ArrowDown'' shiftKey c = Inr c'
                \<and> sets_field c c' ''highlightedIndex'' (Num 0)"
    using arrow_open_move [OF cnt pos opn idx nt, of "''ArrowDown''" shiftKey] l by auto
next
  assume "n \<le> 0"
  then show "press_keys ks c = Inr c"
    using arrow_no_items [OF cnt _ opn keys(2)] by simp
qed

theorem arrow_moves_stay_in_range_witness:
  "getItemCount sample_highlighted = Num 3
   \<and> truthy (obj_get (getState sample_highlighted (state sample_highlighted)) ''isOpen'')
   \<and> obj_get (getState sample_highlighted (state sample_highlighted)) ''highlightedIndex'' = Num 0
   \<and> \<not> hasOwnProperty (state sample_highlighted) ''type''
   \<and> \<not> isControlledProp sample_highlighted ''highlightedIndex''
   \<and> arrow_key (''ArrowDown'', True) \<and> arrow_key (''ArrowUp'', False)
   \<and> (\<exists>c' j. press_keys [(''ArrowDown'', True), (''ArrowUp'', False), (''ArrowUp'', False)] sample_highlighted
                 = Inr c'
          \<and> obj_get (state c') ''highlightedIndex'' = Num j \<and> 0 \<le> j \<and> j < 3)
   \<and> (\<exists>c'. input_handleKeyDown ''ArrowUp'' False sample_highlighted = Inr c'
          \<and> obj_get (state c') ''highlightedIndex'' = Num 2)
   \<and> getItemCount sample_last = Num 3
   \<and> obj_get (getState sample_last (state sample_last)) ''highlightedIndex'' = Num 2
   \<and> (\<exists>c'. input_handleKeyDown ''ArrowDown'' True sample_last = Inr c'
          \<and> obj_get (state c') ''highlightedIndex'' = Num 0)
   \<and> getItemCount sample_empty_open = Num 0
   \<and> press_keys [(''ArrowDown'', False)] sample_empty_open = Inr sample_empty_open"
proof -
  let ?ks = "[(''ArrowDown'', True), (''ArrowUp'', False), (''ArrowUp'', False)]"
  have a1: "getItemCount sample_highlighted = Num 3" by code_simp
  have a2: "\<not> isControlledProp sample_highlighted ''highlightedIndex''" by code_simp
  have a3: "truthy (obj_get (getState sample_highlighted (state sample_highlighted)) ''isOpen'')"
    by code_simp
  have a4: "obj_get (getState sample_highlighted (state sample_highlighted)) ''highlightedIndex'' = Num 0"
    by code_simp
  have a5: "\<forall>k \<in> set ?ks. arrow_key k" by (simp add: arrow_key_def)
  have a6: "arrow_key (''ArrowDown'', True)" "arrow_key (''ArrowUp'', False)"
    by (simp_all add: arrow_key_def)
  have a7: "\<not> hasOwnProperty (state sample_highlighted) ''type''" by code_simp
  have b1: "getItemCount sample_last = Num 3" by code_simp
  have b2: "\<not> isControlledProp sample_last ''highlightedIndex''" by code_simp
  have b3: "truthy (obj_get (getState sample_last (state sample_last)) ''isOpen'')" by code_simp
  have b4: "obj_get (getState sample_last (state sample_last)) ''highlightedIndex'' = Num 2" by code_simp
  have b7: "\<not> hasOwnProperty (state sample_last) ''type''" by code_simp
  have c1: "getItemCount sample_empty_open = Num 0" by code_simp
  have c3: "truthy (obj_get (getState sample_empty_open (state sample_empty_open)) ''isOpen'')"
    by code_simp
  have c4: "obj_get (getState sample_empty_open (state sample_empty_open)) ''highlightedIndex'' = Null"
    by code_simp
  have c5: "\<forall>k \<in> set [(''ArrowDown'', False)]. arrow_key k" by (simp add: arrow_key_def)
  have c7: "\<not> hasOwnProperty (state sample_empty_open) ''type''" by code_simp
  have a4': "\<exists>b. obj_get (getState sample_highlighted (state sample_highlighted)) ''highlightedIndex'' = Num b"
    using a4 by simp
  have b4': "\<exists>b. obj_get (getState sample_last (state sample_last)) ''highlightedIndex'' = Num b"
    using b4 by simp
  have A: "(\<exists>c' j. press_keys ?ks sample_highlighted = Inr c'
              \<and> obj_get (state c') ''highlightedIndex'' = Num j \<and> 0 \<le> j \<and> j < 3)
         \<and> (\<exists>c'. input_handleKeyDown ''ArrowUp'' False sample_highlighted = Inr c'
              \<and> obj_get (state c') ''highlightedIndex'' = Num 2)"
    using arrow_moves_stay_in_range [OF a1 a3 disjI2 [OF a4'] a7 a6(2) a5] a4 a2
    by (simp add: sets_field_def)
  have B: "\<exists>c'. input_handleKeyDown ''ArrowDown'' True sample_last = Inr c'
              \<and> obj_get (state c') ''highlightedIndex'' = Num 0"
    using arrow_moves_stay_in_range [OF b1 b3 disjI2 [OF b4'] b7 a6(1) a5] b4 b2
    by (simp add: sets_field_def)
  have C: "press_keys [(''ArrowDown'', False)] sample_empty_open = Inr sample_empty_open"
    using arrow_moves_stay_in_range [OF c1 c3 disjI1 [OF c4] c7 a6(2) c5] by simp
  show ?thesis using a1 a2 a3 a4 a6 a7 A b1 b4 B c1 C by simp
qed

text \<open>
  C1 as stated fails for an arrow key pressed while the list is closed: the key does not
  move the index, it opens the list and highlights \<open>defaultHighlightedIndex\<close>, which is not
  checked against the item count. With three items and a default index of 7 the
  highlighted index after ArrowDown is 7.
\<close>

theorem closed_arrow_counterexample:
  "getItemCount sample_default7 = Num 3
   \<and> \<not> truthy (obj_get (getState sample_default7 (state sample_default7)) ''isOpen'')
   \<and> \<not> isl (input_handleKeyDown ''ArrowDown'' False sample_default7)
   \<and> obj_get (state (projr (input_handleKeyDown ''ArrowDown'' False sample_default7))) ''highlightedIndex''
        = Num 7
   \<and> obj_get (state (projr (input_handleKeyDown ''ArrowDown'' False sample_default7))) ''isOpen''
        = Bool True
   \<and> getItemCount (projr (input_handleKeyDown ''ArrowDown'' False sample_default7)) = Num 3"
  by code_simp

lemma within_known_iff:
  "within_known c c' \<longleftrightarrow>
     set (obj_keys (state c')) \<subseteq> set (obj_keys (state c)) \<union> set stateKeys
     \<and> (\<exists>new. fired c' = fired c @ new \<and> (\<forall>n \<in> set new. notification_keys n \<subseteq> set stateKeys))"
proof -
  have "(take (length (fired c)) (fired c') = fired c
          \<and> (\<forall>n \<in> set (drop (length (fired c)) (fired c')). notification_keys n \<subseteq> set stateKeys))
        \<longleftrightarrow> (\<exists>new. fired c' = fired c @ new \<and> (\<forall>n \<in> set new. notification_keys n \<subseteq> set stateKeys))"
    (is "?L \<longleftrightarrow> ?R")
  proof
    assume ?L
    then have "fired c' = fired c @ drop (length (fired c)) (fired c')"
      by (metis append_take_drop_id)
    with \<open>?L\<close> show ?R by blast
  next
    assume ?R
    then show ?L by auto
  qed
  then show ?thesis unfolding within_known_def by blast
qed

lemma within_known_refl: "within_known c c"
  by (simp add: within_known_iff)

lemma within_known_trans:
  "within_known a b \<Longrightarrow> within_known b c \<Longrightarrow> within_known a c"
  unfolding within_known_iff by (elim conjE exE, intro conjI) (blast, force)

lemma obj_keys_simps [simp]: "obj_keys [] = []" "obj_keys ((k, v) # ob) = k # obj_keys ob"
  by (simp_all add: obj_keys_def)

lemma keys_with_type: "set (obj_keys (with_type s)) = insert ''type'' (set (obj_keys s))"
  using dom_update [of "''type''" _ s]
  by (simp add: with_type_def obj_keys_def obj_set_def)

lemma keys_spread': "set (obj_keys (spread a b)) = set (obj_keys a) \<union> set (obj_keys b)"
  using keys_spread [of a b] by (simp add: obj_keys_def)

lemma keys_filter: "set (obj_keys (filter P s)) \<subseteq> set (obj_keys s)"
  by (auto simp: obj_keys_def)

lemma keys_getStateAndHelpers: "set (obj_keys (getStateAndHelpers c)) \<subseteq> set stateKeys"
  by (simp add: getStateAndHelpers_def obj_keys_def stateKeys_def Let_def comp_def)

lemma keys_pickState: "set (obj_keys (pickState st)) \<subseteq> set stateKeys"
  by (auto simp: pickState_def obj_keys_def comp_def)

lemma type_known: "''type'' \<in> set stateKeys"
  by (simp add: stateKeys_def)

lemma early_calls_known:
  assumes "set (obj_keys (update_of c stateToSet)) \<subseteq> set stateKeys"
  shows "\<forall>n \<in> set (early_calls c stateToSet). notification_keys n \<subseteq> set stateKeys"
proof (cases stateToSet)
  case (Inl f)
  then show ?thesis
    using assms keys_getStateAndHelpers [of c] type_known
    by (auto simp: early_calls_def Let_def keys_spread' keys_with_type)
next
  case (Inr ob)
  then show ?thesis
    using assms keys_getStateAndHelpers [of c]
    by (auto simp: early_calls_def Let_def keys_spread' update_of_def)
qed

lemma late_calls_known:
  assumes "set (obj_keys (update_of c stateToSet)) \<subseteq> set stateKeys"
  shows "\<forall>n \<in> set (late_calls c stateToSet d). notification_keys n \<subseteq> set stateKeys"
proof -
  have "set (obj_keys (onStateChangeArg_of c stateToSet)) \<subseteq> set stateKeys"
    using keys_filter [of _ "with_type (update_of c stateToSet)"] assms type_known
    unfolding onStateChangeArg_of_def keys_with_type by blast
  then show ?thesis
    using keys_getStateAndHelpers [of d]
    by (auto simp: late_calls_def Let_def)
qed

lemma within_known_internalSetState:
  assumes upd: "set (obj_keys (update_of c stateToSet)) \<subseteq> set stateKeys"
    and cb: "\<And>d. within_known d (cb d)"
  shows "within_known c (internalSetState stateToSet cb c)"
proof -
  let ?m = "commit stateToSet c"
  let ?d = "cb ?m"
  let ?r = "internalSetState stateToSet cb c"
  have "set (obj_keys (nextState_of c stateToSet)) \<subseteq> set stateKeys"
    using keys_filter [of _ "with_type (update_of c stateToSet)"] upd type_known
    unfolding nextState_of_def keys_with_type by blast
  then have m: "within_known c ?m"
    using early_calls_known [OF upd]
    by (auto simp: within_known_iff state_commit fired_commit keys_spread')
  have "within_known ?d ?r"
    using late_calls_known [OF upd, of ?d]
    by (simp add: within_known_iff state_internalSetState fired_internalSetState)
  with within_known_trans [OF m cb [of ?m]] show ?thesis
    by (rule within_known_trans)
qed

lemma within_known_noop: "within_known d (noop d)"
  by (simp add: noop_def within_known_refl)

lemma within_known_setHighlightedIndex: "within_known c (setHighlightedIndex i extra c)"
  unfolding setHighlightedIndex_def Let_def
  using keys_pickState [of extra]
  by (intro within_known_internalSetState within_known_noop)
     (auto simp: update_of_def keys_spread' stateKeys_def)

lemma within_known_reset: "within_known c (reset extra noop c)"
  unfolding reset_def Let_def
  using keys_pickState [of extra]
  by (intro within_known_internalSetState within_known_noop)
     (auto simp: update_of_def keys_spread' stateKeys_def)

lemma within_known_toggleMenu: "within_known c (toggleMenu extra noop c)"
  unfolding toggleMenu_def Let_def
  using keys_pickState [of extra]
  by (intro within_known_internalSetState)
     (auto simp: update_of_def keys_spread' stateKeys_def noop_def
        highlightDefaultIndex_def within_known_refl within_known_setHighlightedIndex)

lemma within_known_selectItem:
  "selectItem item extra noop c = Inr c' \<Longrightarrow> within_known c c'"
proof -
  assume a: "selectItem item extra noop c = Inr c'"
  have k: "set (obj_keys (update_of c (Inr (select_update c item iv extra)))) \<subseteq> set stateKeys" for iv
    using keys_pickState [of extra]
    by (auto simp: update_of_def select_update_def keys_spread' stateKeys_def)
  have "\<exists>iv. c' = internalSetState (Inr (select_update c item iv extra)) noop c"
    using a by (auto simp: selectItem_def select_update_def Let_def split: if_splits option.splits)
  then show ?thesis
    using within_known_internalSetState [OF k within_known_noop] by blast
qed

lemma pickState_idem: "pickState (pickState st) = pickState st"
proof -
  have "filter (hasOwnProperty (pickState st)) stateKeys = filter (hasOwnProperty st) stateKeys"
    by (rule filter_cong) (simp_all add: hasOwnProperty_pickState)
  moreover have "\<forall>k \<in> set stateKeys. obj_get (pickState st) k = obj_get st k"
    by (simp add: obj_get_pickState)
  ultimately show ?thesis by (simp add: pickState_def)
qed

lemma within_known_key_absent:
  assumes "within_known c c'" and "k \<notin> set stateKeys" and "\<not> hasOwnProperty (state c) k"
  shows "key_absent k c c'"
  using assms unfolding within_known_def key_absent_def hasOwnProperty_def obj_keys_def by blast

subsection \<open>Unknown keys of an extra partial state\<close>

text \<open>
  C10. \<open>reset\<close>, \<open>toggleMenu\<close>, \<open>selectItem\<close> and \<open>setHighlightedIndex\<close> use their extra
  partial-state argument only through \<open>pickState\<close>: each gives the same result for the
  argument and for what \<open>pickState\<close> keeps of it, and \<open>pickState\<close> keeps no key outside
  \<open>highlightedIndex\<close>, \<open>inputValue\<close>, \<open>isOpen\<close>, \<open>selectedItem\<close>, \<open>type\<close>. So a key \<open>k\<close> outside
  that set (and not in \<open>this.state\<close> before) is not in \<open>this.state\<close> afterwards and in no
  object passed to a callback prop by the operation.
\<close>

theorem unknown_keys_discarded:
  assumes k: "k \<notin> set stateKeys" and s: "\<not> hasOwnProperty (state c) k"
  shows "reset extra cb c = reset (pickState extra) cb c
       \<and> toggleMenu extra cb c = toggleMenu (pickState extra) cb c
       \<and> selectItem item extra cb c = selectItem item (pickState extra) cb c
       \<and> setHighlightedIndex i extra c = setHighlightedIndex i (pickState extra) c
       \<and> \<not> hasOwnProperty (pickState extra) k
       \<and> key_absent k c (reset extra noop c)
       \<and> key_absent k c (toggleMenu extra noop c)
       \<and> key_absent k c (setHighlightedIndex i extra c)
       \<and> (\<forall>c'. selectItem item extra noop c = Inr c' \<longrightarrow> key_absent k c c')"
proof (intro conjI allI impI)
  show "reset extra cb c = reset (pickState extra) cb c"
    by (simp add: reset_def pickState_idem)
  show "toggleMenu extra cb c = toggleMenu (pickState extra) cb c"
    by (simp add: toggleMenu_def pickState_idem)
  show "selectItem item extra cb c = selectItem item (pickState extra) cb c"
    by (simp add: selectItem_def pickState_idem)
  show "setHighlightedIndex i extra c = setHighlightedIndex i (pickState extra) c"
    by (simp add: setHighlightedIndex_def pickState_idem)
  show "\<not> hasOwnProperty (pickState extra) k"
    using k by (simp add: hasOwnProperty_pickState)
  show "key_absent k c (reset extra noop c)"
    using within_known_reset k s by (rule within_known_key_absent)
  show "key_absent k c (toggleMenu extra noop c)"
    using within_known_toggleMenu k s by (rule within_known_key_absent)
  show "key_absent k c (setHighlightedIndex i extra c)"
    using within_known_setHighlightedIndex k s by (rule within_known_key_absent)
  show "key_absent k c c'" if "selectItem item extra noop c = Inr c'" for c'
    using within_known_selectItem [OF that] k s by (rule within_known_key_absent)
qed

theorem unknown_keys_discarded_witness:
  "''foo'' \<notin> set stateKeys \<and> \<not> hasOwnProperty (state sample_open) ''foo''
   \<and> hasOwnProperty sample_extra ''foo''
   \<and> \<not> hasOwnProperty (state (reset sample_extra noop sample_open)) ''foo''
   \<and> obj_get (state (reset sample_extra noop sample_open)) ''isOpen'' = Bool True
   \<and> \<not> hasOwnProperty (state (toggleMenu sample_extra noop sample_open)) ''foo''
   \<and> \<not> hasOwnProperty (state (setHighlightedIndex (Num 1) sample_extra sample_open)) ''foo''
   \<and> \<not> isl (selectItem (Ref 2) sample_extra noop sample_open)
   \<and> \<not> hasOwnProperty (state (projr (selectItem (Ref 2) sample_extra noop sample_open))) ''foo''
   \<and> drop (length (fired sample_open)) (fired (setHighlightedIndex (Num 1) sample_extra sample_open)) =
        [OnStateChange [(''highlightedIndex'', Num 1), (''type'', Str ''custom'')]
           [(''highlightedIndex'', Num 1), (''inputValue'', Str []), (''isOpen'', Bool True),
            (''selectedItem'', Null)]]"
proof -
  have h1: "''foo'' \<notin> set stateKeys" by (simp add: stateKeys_def)
  have h2: "\<not> hasOwnProperty (state sample_open) ''foo''" by code_simp
  have h3: "hasOwnProperty sample_extra ''foo''" by (simp add: sample_extra_def)
  have h5: "obj_get (state (reset sample_extra noop sample_open)) ''isOpen'' = Bool True" by code_simp
  have h6: "drop (length (fired sample_open)) (fired (setHighlightedIndex (Num 1) sample_extra sample_open)) =
        [OnStateChange [(''highlightedIndex'', Num 1), (''type'', Str ''custom'')]
           [(''highlightedIndex'', Num 1), (''inputValue'', Str []), (''isOpen'', Bool True),
            (''selectedItem'', Null)]]" by code_simp
  have h7: "\<not> isl (selectItem (Ref 2) sample_extra noop sample_open)" by code_simp
  then have h4: "selectItem (Ref 2) sample_extra noop sample_open
              = Inr (projr (selectItem (Ref 2) sample_extra noop sample_open))"
    by (cases "selectItem (Ref 2) sample_extra noop sample_open") simp_all
  note T = unknown_keys_discarded [OF h1 h2, where extra = sample_extra and item = "Ref 2"
              and i = "Num 1" and cb = noop]
  from T have K: "key_absent ''foo'' sample_open (reset sample_extra noop sample_open)"
      "key_absent ''foo'' sample_open (toggleMenu sample_extra noop sample_open)"
      "key_absent ''foo'' sample_open (setHighlightedIndex (Num 1) sample_extra sample_open)"
      "key_absent ''foo'' sample_open (projr (selectItem (Ref 2) sample_extra noop sample_open))"
    using h4 by blast+
  show ?thesis using K h1 h2 h3 h5 h6 h7 by (simp add: key_absent_def)
qed

section \<open>Properties of the prediction formatter and of the script loader\<close>

lemma formatPredictions_each:
  "formatPredictions engine ds = Inr rs \<Longrightarrow>
   length rs = length ds \<and> (\<forall>i < length ds. formatPrediction engine (ds ! i) = Inr (rs ! i))"
proof (induction ds arbitrary: rs)
  case Nil
  then show ?case by simp
next
  case (Cons d ds)
  from Cons.prems obtain r rs' where r: "formatPrediction engine d = Inr r"
    and rs': "formatPredictions engine ds = Inr rs'" and rs: "rs = r # rs'"
    by (auto split: sum.splits)
  from Cons.IH [OF rs'] r rs show ?case
    by (auto simp: nth_Cons split: nat.splits)
qed

text \<open>
  The formatter throws exactly where the source does: on an undefined text with matched
  substrings, and where the engine throws.
\<close>

lemma format_text_throws: "isl (format_text engine text substrings) = text_throws engine text substrings"
  by (simp add: format_text_def text_throws_def Let_def split: option.splits sum.splits)

lemma formatPrediction_throws: "isl (formatPrediction engine d) = throws engine d"
  using format_text_throws [of engine "main_text (structured_formatting d)"
          "main_text_matched_substrings (structured_formatting d)"]
        format_text_throws [of engine "secondary_text (structured_formatting d)"
          "secondary_text_matched_substrings (structured_formatting d)"]
  by (auto simp: formatPrediction_def throws_def Let_def split: sum.splits)

lemma formatPredictions_throws: "isl (formatPredictions engine ds) = list_ex (throws engine) ds"
proof (induction ds)
  case Nil
  then show ?case by simp
next
  case (Cons d ds)
  then show ?case
    using formatPrediction_throws [of engine d] by (auto split: sum.splits)
qed

lemma format_berlin:
  "format_text engine (Some ''Berlin, Germany'') (Some [Match 0 4]) = Inr (Some ''<b>Berl</b>in, Germany'')"
  by code_simp

text \<open>
  C7. For every prediction whose main text is \<open>Berlin, Germany\<close> with one matched substring
  at offset 0 and length 4, the formatted main text is \<open><b>Berl</b>in, Germany\<close>: exactly
  \<open>Berl\<close> is wrapped in emphasis markup and the rest, \<open>in, Germany\<close>, is left as it is.
  Formatting this main text never throws, whatever the engine. For every list of
  predictions in which no prediction throws, \<open>formatPredictions\<close> returns a list of the
  same length, and the entry of such a prediction in it has this formatted main text;
  for a list in which a prediction throws, \<open>formatPredictions\<close> throws, as \<open>map\<close> does in
  the source.
\<close>

theorem berlin_main_text_formatted:
  assumes "main_text (structured_formatting d) = Some ''Berlin, Germany''"
    and "main_text_matched_substrings (structured_formatting d) = Some [Match 0 4]"
  shows "format_text engine (main_text (structured_formatting d))
           (main_text_matched_substrings (structured_formatting d))
           = Inr (Some (''<b>'' @ ''Berl'' @ ''</b>'' @ ''in, Germany''))
       \<and> (\<forall>ds. \<not> list_ex (throws engine) ds \<longrightarrow>
             (\<exists>rs. formatPredictions engine ds = Inr rs \<and> length rs = length ds
                \<and> (\<forall>i < length ds. ds ! i = d \<longrightarrow>
                      formatted_main_text (formatted (rs ! i))
                        = Some (''<b>'' @ ''Berl'' @ ''</b>'' @ ''in, Germany''))))
       \<and> (\<forall>ds. list_ex (throws engine) ds \<longrightarrow> isl (formatPredictions engine ds))"
proof (intro conjI allI impI)
  show m: "format_text engine (main_text (structured_formatting d))
           (main_text_matched_substrings (structured_formatting d))
           = Inr (Some (''<b>'' @ ''Berl'' @ ''</b>'' @ ''in, Germany''))"
    using assms format_berlin [of engine] by simp
  have one: "formatted_main_text (formatted r) = Some (''<b>'' @ ''Berl'' @ ''</b>'' @ ''in, Germany'')"
    if "formatPrediction engine d = Inr r" for r
    using that m by (auto simp: formatPrediction_def Let_def prediction.defs split: sum.splits)
  show "\<exists>rs. formatPredictions engine ds = Inr rs \<and> length rs = length ds
                \<and> (\<forall>i < length ds. ds ! i = d \<longrightarrow>
                      formatted_main_text (formatted (rs ! i))
                        = Some (''<b>'' @ ''Berl'' @ ''</b>'' @ ''in, Germany''))"
    if "\<not> list_ex (throws engine) ds" for ds
  proof -
    from that have "\<not> isl (formatPredictions engine ds)"
      by (simp add: formatPredictions_throws)
    then obtain rs where rs: "formatPredictions engine ds = Inr rs"
      by (cases "formatPredictions engine ds") simp_all
    from formatPredictions_each [OF rs] one
    have "length rs = length ds \<and> (\<forall>i < length ds. ds ! i = d \<longrightarrow>
                      formatted_main_text (formatted (rs ! i))
                        = Some (''<b>'' @ ''Berl'' @ ''</b>'' @ ''in, Germany''))"
      by blast
    with rs show ?thesis by blast
  qed
  show "isl (formatPredictions engine ds)" if "list_ex (throws engine) ds" for ds
    using that by (simp add: formatPredictions_throws)
qed

theorem berlin_main_text_formatted_witness:
  "main_text (structured_formatting berlin) = Some ''Berlin, Germany''
   \<and> main_text_matched_substrings (structured_formatting berlin) = Some [Match 0 4]
   \<and> \<not> list_ex (throws sample_engine) [st_louis, berlin, berlin]
   \<and> \<not> isl (formatPredictions sample_engine [st_louis, berlin, berlin])
   \<and> map (\<lambda>r. formatted_main_text (formatted r))
         (projr (formatPredictions sample_engine [st_louis, berlin, berlin]))
        = [Some ''<b>St.</b> Louis'', Some ''<b>Berl</b>in, Germany'', Some ''<b>Berl</b>in, Germany'']"
proof -
  let ?ds = "[st_louis, berlin, berlin]"
  have h1: "main_text (structured_formatting berlin) = Some ''Berlin, Germany''"
    by (simp add: berlin_def)
  have h2: "main_text_matched_substrings (structured_formatting berlin) = Some [Match 0 4]"
    by (simp add: berlin_def)
  have h3: "\<not> list_ex (throws sample_engine) ?ds"
    by code_simp
  note T = berlin_main_text_formatted [OF h1 h2, of sample_engine]
  from T [THEN conjunct2, THEN conjunct1, rule_format, OF h3]
  obtain rs where rs: "formatPredictions sample_engine ?ds = Inr rs" and l: "length rs = 3"
    and b: "\<forall>i < length ?ds. ?ds ! i = berlin \<longrightarrow>
              formatted_main_text (formatted (rs ! i)) = Some (''<b>'' @ ''Berl'' @ ''</b>'' @ ''in, Germany'')"
    by auto
  from l obtain r0 r1 r2 where r: "rs = [r0, r1, r2]"
    by (auto simp: length_Suc_conv numeral_3_eq_3)
  from b [rule_format, of 1] r
  have b1: "formatted_main_text (formatted r1) = Some ''<b>Berl</b>in, Germany''" by simp
  from b [rule_format, of 2] r
  have b2: "formatted_main_text (formatted r2) = Some ''<b>Berl</b>in, Germany''" by simp
  have s: "formatted_main_text (formatted (hd (projr (formatPredictions sample_engine ?ds))))
             = Some ''<b>St.</b> Louis''"
    by code_simp
  with rs r have b0: "formatted_main_text (formatted r0) = Some ''<b>St.</b> Louis''" by simp
  show ?thesis using h1 h2 h3 rs r b0 b1 b2 by simp
qed

text \<open>
  C8. Constructing the script loader raises its configuration error, at once, exactly
  when the API key and the client ID are both supplied or both missing (a value counts
  as supplied when it is truthy; no argument at all supplies neither). With exactly one
  of the two the constructor raises no error and goes on to \<open>init\<close>.
\<close>

theorem loader_credentials:
  "isl (fst (GoogleLibraryService arg w)) =
     (case arg of None \<Rightarrow> True
      | Some p \<Rightarrow> truthy (apiKey p) = truthy (client p))"
  by (auto simp: GoogleLibraryService_def Let_def split: option.splits prod.splits)

end
